theory Spec2Isabelle
  imports Complex_Main
begin

section \<open>Python values and errors\<close>

text \<open>
  The pendulum scripts compute with Python floats and numpy float64 values. They are
  modelled here as real numbers with exact arithmetic: \<open>+\<close>, \<open>*\<close>, \<open>/\<close>,
  \<open>sqrt\<close>, \<open>cos\<close>, \<open>sin\<close> and \<open>pi\<close> are the mathematical ones, and no rounding,
  overflow or underflow is modelled. The angle grid, whose endpoints and order depend on
  rounding, is modelled a second time in double arithmetic (\<open>linspace_double\<close>).
  Python integers are \<open>int\<close>. The module-level
  constants of each script (\<open>L\<close>, \<open>g\<close>, \<open>theta_low_deg\<close>, \<open>theta_high_deg\<close>,
  \<open>sample_count\<close>, \<open>integral_steps\<close>, \<open>epsilon\<close>) are parameters of the functions that
  read them.

  Exceptions are values: a function that can raise returns \<open>py_error + 'a\<close>.
  \<open>NotFinite\<close> is not an exception: it stands for a numpy float64 result that is
  \<open>nan\<close> or \<open>inf\<close> (numpy warns and goes on where \<open>math\<close> raises).
\<close>

datatype py_error = ValueError | ZeroDivisionError | AssertionError | IndexError | NotFinite

definition bind_err :: "py_error + 'a \<Rightarrow> ('a \<Rightarrow> py_error + 'b) \<Rightarrow> py_error + 'b" where
  "bind_err m k = (case m of Inl e \<Rightarrow> Inl e | Inr x \<Rightarrow> k x)"

text \<open>Python float division \<open>x / y\<close>: raises \<open>ZeroDivisionError\<close> when \<open>y\<close> is zero.\<close>

definition py_div :: "real \<Rightarrow> real \<Rightarrow> py_error + real" where
  "py_div x y = (if y = 0 then Inl ZeroDivisionError else Inr (x / y))"

text \<open>\<open>math.sqrt(x)\<close>: raises \<open>ValueError\<close> (math domain error) when \<open>x\<close> is negative.\<close>

definition py_sqrt :: "real \<Rightarrow> py_error + real" where
  "py_sqrt x = (if x < 0 then Inl ValueError else Inr (sqrt x))"

text \<open>numpy float64 division and \<open>np.sqrt\<close>: \<open>inf\<close> or \<open>nan\<close> instead of an exception.\<close>

definition np_div :: "real \<Rightarrow> real \<Rightarrow> py_error + real" where
  "np_div x y = (if y = 0 then Inl NotFinite else Inr (x / y))"

definition np_sqrt :: "real \<Rightarrow> py_error + real" where
  "np_sqrt x = (if x < 0 then Inl NotFinite else Inr (sqrt x))"

text \<open>\<open>[k(x) for x in xs]\<close> where \<open>k\<close> can raise: the first exception ends the comprehension.\<close>

fun map_err :: "('a \<Rightarrow> py_error + 'b) \<Rightarrow> 'a list \<Rightarrow> py_error + 'b list" where
  "map_err k [] = Inr []"
| "map_err k (x # xs) =
     bind_err (k x) (\<lambda>y. bind_err (map_err k xs) (\<lambda>ys. Inr (y # ys)))"


section \<open>Input validation\<close>

text \<open>
  \<open>validate_inputs\<close> of \<open>Simple Physics Problem/gpt5highthinkingtest/generate_pendulum_analysis.py\<close>:
  three checks in this order, each raising \<open>ValueError\<close>. The chained comparison
  \<open>0 < low < high <= 89.999\<close> is the conjunction of its three links.
\<close>

definition validate_inputs_gpt5 :: "int \<Rightarrow> real \<Rightarrow> real \<Rightarrow> int \<Rightarrow> py_error + unit" where
  "validate_inputs_gpt5 integral_steps theta_low_deg theta_high_deg sample_count =
     (if integral_steps mod 2 \<noteq> 0 then Inl ValueError
      else if \<not> (0 < theta_low_deg \<and> theta_low_deg < theta_high_deg
                  \<and> theta_high_deg \<le> 89.999) then Inl ValueError
      else if sample_count < 4 then Inl ValueError
      else Inr ())"

text \<open>\<open>validate_inputs\<close> of \<open>gemini2.5prothinkingtest/pendulum_analysis.py\<close>.\<close>

definition validate_inputs_gemini :: "int \<Rightarrow> real \<Rightarrow> real \<Rightarrow> int \<Rightarrow> py_error + unit" where
  "validate_inputs_gemini INTEGRAL_STEPS THETA_LOW_DEG THETA_HIGH_DEG SAMPLE_COUNT =
     (if INTEGRAL_STEPS mod 2 \<noteq> 0 then Inl ValueError
      else if \<not> (0 < THETA_LOW_DEG \<and> THETA_LOW_DEG < THETA_HIGH_DEG
                  \<and> THETA_HIGH_DEG < 90) then Inl ValueError
      else if SAMPLE_COUNT < 4 then Inl ValueError
      else Inr ())"

text \<open>
  \<open>validate_inputs\<close> of \<open>sonnet4.5thinkingtest/pendulum_analysis.py\<close>: four \<open>assert\<close>
  statements, each raising \<open>AssertionError\<close> when its condition is false.
\<close>

definition validate_inputs_sonnet :: "int \<Rightarrow> real \<Rightarrow> real \<Rightarrow> int \<Rightarrow> py_error + unit" where
  "validate_inputs_sonnet integral_steps theta_low_deg theta_high_deg sample_count =
     (if \<not> integral_steps mod 2 = 0 then Inl AssertionError
      else if \<not> theta_low_deg < theta_high_deg then Inl AssertionError
      else if \<not> sample_count \<ge> 4 then Inl AssertionError
      else if \<not> integral_steps \<ge> 100 then Inl AssertionError
      else Inr ())"

text \<open>The four conditions of the specification's Input Validator, in the spec's words.\<close>

definition config_rejected :: "int \<Rightarrow> real \<Rightarrow> real \<Rightarrow> int \<Rightarrow> bool" where
  "config_rejected integration_steps angle_low_deg angle_high_deg sample_count =
     (odd integration_steps
      \<or> \<not> (0 < angle_low_deg \<and> angle_low_deg < angle_high_deg)
      \<or> angle_high_deg \<ge> 90
      \<or> sample_count < 4)"


section \<open>Angle grid\<close>

text \<open>
  \<open>linspace(a, b, n)\<close> of the gpt5 script. For \<open>n \<noteq> 1\<close> the divisor \<open>n - 1\<close> is not
  zero, so the division cannot raise; \<open>range(n)\<close> is empty for \<open>n \<le> 0\<close>.
\<close>

definition linspace :: "real \<Rightarrow> real \<Rightarrow> int \<Rightarrow> real list" where
  "linspace a b n =
     (if n = 1 then [a]
      else (let step = (b - a) / of_int (n - 1)
            in map (\<lambda>i. a + real i * step) [0..<nat n]))"

text \<open>\<open>math.radians\<close>, \<open>np.deg2rad\<close> and glm's \<open>theta0_deg * np.pi / 180\<close>.\<close>

definition radians :: "real \<Rightarrow> real" where
  "radians x = x * (pi / 180)"

definition theta_rad_glm :: "real list \<Rightarrow> real list" where
  "theta_rad_glm theta0_deg = map (\<lambda>x. x * pi / 180) theta0_deg"

subsection \<open>The grid in double arithmetic\<close>

text \<open>
  IEEE 754 binary64 with round-to-nearest, ties-to-even, the arithmetic of a Python
  float. A double is a real number here, and \<open>fl x\<close> is the double nearest to \<open>x\<close>: with
  \<open>e\<close> the binary exponent of \<open>x\<close>, not below \<open>- 1022\<close> (where the subnormal range
  begins), the doubles around \<open>x\<close> are the integer multiples of \<open>2 ^ (e - 52)\<close>, and
  \<open>x\<close> is rounded to the nearest of them, to the even multiple when it lies halfway.
  Overflow to \<open>inf\<close> is not modelled.
\<close>

definition pow2 :: "int \<Rightarrow> real" where
  "pow2 e = (if 0 \<le> e then 2 ^ nat e else 1 / 2 ^ nat (- e))"

definition round_even :: "real \<Rightarrow> int" where
  "round_even y =
     (let f = \<lfloor>y\<rfloor>; r = y - of_int f
      in if r < 1 / 2 then f else if 1 / 2 < r then f + 1 else if even f then f else f + 1)"

definition dexp :: "real \<Rightarrow> int" where
  "dexp x = max \<lfloor>log 2 \<bar>x\<bar>\<rfloor> (- 1022)"

definition fl :: "real \<Rightarrow> real" where
  "fl x =
     (if x = 0 then 0
      else (let u = pow2 (dexp x - 52)
            in sgn x * (of_int (round_even (\<bar>x\<bar> / u)) * u)))"

text \<open>
  \<open>linspace(a, b, n)\<close> of the gpt5 script in double arithmetic: every operation of
  \<open>step = (b - a) / (n - 1)\<close> and of \<open>a + i * step\<close> is the exact one followed by
  \<open>fl\<close>, and the integers \<open>n - 1\<close> and \<open>i\<close> are converted to floats before they are
  used.
\<close>

definition linspace_double :: "real \<Rightarrow> real \<Rightarrow> int \<Rightarrow> real list" where
  "linspace_double a b n =
     (if n = 1 then [a]
      else (let step = fl (fl (b - a) / fl (of_int (n - 1)))
            in map (\<lambda>i. fl (a + fl (fl (real i) * step))) [0..<nat n]))"

text \<open>
  \<open>math.radians(x)\<close> is \<open>x * (pi / 180)\<close> with the constant \<open>pi / 180\<close> computed in
  doubles; glm's \<open>theta0_deg * np.pi / 180\<close> multiplies first and divides then.
\<close>

definition radians_double :: "real \<Rightarrow> real" where
  "radians_double x = fl (x * fl (fl pi / 180))"

definition theta_rad_glm_double :: "real list \<Rightarrow> real list" where
  "theta_rad_glm_double theta0_deg = map (\<lambda>x. fl (fl (x * fl pi) / 180)) theta0_deg"



section \<open>Closed-form period estimators\<close>

text \<open>
  gpt5 \<open>main\<close>, step 2: \<open>T0_const = 2.0 * math.pi * math.sqrt(L / g)\<close> and
  \<open>T0 = [T0_const for _ in theta_rad]\<close>. The same expression is \<open>compute_T0\<close> of the
  kimi script and the \<open>T0\<close> of the sonnet and glm scripts.
\<close>

definition T0_const :: "real \<Rightarrow> real \<Rightarrow> py_error + real" where
  "T0_const L g =
     bind_err (py_div L g) (\<lambda>q. bind_err (py_sqrt q) (\<lambda>r. Inr (2 * pi * r)))"

definition T0_list :: "real \<Rightarrow> real list \<Rightarrow> real list" where
  "T0_list t0 theta_rad = map (\<lambda>_. t0) theta_rad"

text \<open>gpt5 \<open>main\<close>, step 3: the list comprehension for \<open>T_series\<close>.\<close>

definition T_series_list :: "real \<Rightarrow> real list \<Rightarrow> real list" where
  "T_series_list t0 theta_rad =
     map (\<lambda>th. t0 * (1 + (th ^ 2) / 16 + (11 * (th ^ 4)) / 3072)) theta_rad"

text \<open>\<open>compute_T_series(T0, theta0)\<close> of \<open>kimik2thinkingtest/pendulum.py\<close>.\<close>

definition compute_T_series :: "real \<Rightarrow> real \<Rightarrow> real" where
  "compute_T_series t0 theta0 = t0 * (1 + theta0 ^ 2 / 16 + 11 * theta0 ^ 4 / 3072)"

text \<open>The specification's two closed forms, in the spec's words.\<close>

definition T_small_spec :: "real \<Rightarrow> real \<Rightarrow> real" where
  "T_small_spec length_m gravity_m_s2 = 2 * pi * sqrt (length_m / gravity_m_s2)"

definition T_series_spec :: "real \<Rightarrow> real \<Rightarrow> real" where
  "T_series_spec t_small \<theta> = t_small * (1 + \<theta>\<^sup>2 / 16 + 11 * \<theta> ^ 4 / 3072)"


section \<open>Exact period, strategy A: regularised Simpson quadrature\<close>

text \<open>
  \<open>simpson_integral(f, a, b, n)\<close> of the gpt5 script. The \<open>for i in range(1, n)\<close> loop is
  \<open>simpson_loop\<close> over the indices \<open>1, \<dots>, n - 1\<close>, with the running sum \<open>s\<close>.
\<close>

fun simpson_loop ::
  "(real \<Rightarrow> py_error + real) \<Rightarrow> real \<Rightarrow> real \<Rightarrow> nat list \<Rightarrow> real \<Rightarrow> py_error + real" where
  "simpson_loop f a h [] s = Inr s"
| "simpson_loop f a h (i # is) s =
     bind_err (f (a + real i * h))
       (\<lambda>y. simpson_loop f a h is (s + (if i mod 2 = 1 then 4 else 2) * y))"

definition simpson_integral ::
  "(real \<Rightarrow> py_error + real) \<Rightarrow> real \<Rightarrow> real \<Rightarrow> int \<Rightarrow> py_error + real" where
  "simpson_integral f a b n =
     bind_err (py_div (b - a) (of_int n)) (\<lambda>h.
     bind_err (f a) (\<lambda>fa.
     bind_err (f b) (\<lambda>fb.
     bind_err (simpson_loop f a h [1..<nat n] (fa + fb)) (\<lambda>s.
     Inr (s * h / 3)))))"

text \<open>The inner function \<open>f\<close> of \<open>compute_true_period\<close>; \<open>c0\<close> is \<open>math.cos(theta0)\<close>.\<close>

definition compute_true_period_f :: "real \<Rightarrow> real \<Rightarrow> real \<Rightarrow> py_error + real" where
  "compute_true_period_f epsilon c0 theta =
     (let denom = max (cos theta - c0) epsilon
      in bind_err (py_sqrt (2 * denom)) (\<lambda>r. py_div 1 r))"

definition compute_true_period :: "real \<Rightarrow> real \<Rightarrow> int \<Rightarrow> real \<Rightarrow> real \<Rightarrow> py_error + real" where
  "compute_true_period L g integral_steps epsilon theta0 =
     (let c0 = cos theta0 in
      bind_err (simpson_integral (compute_true_period_f epsilon c0) 0 theta0 integral_steps)
        (\<lambda>integral.
      bind_err (py_div L g) (\<lambda>q.
      bind_err (py_sqrt q) (\<lambda>r.
      Inr (4 * r * integral)))))"

text \<open>
  The inner function \<open>f\<close> of \<open>compute_t_num\<close> in the gemini script, at one element of the
  numpy array: \<open>1.0 / np.sqrt(2 * np.maximum(cos_diff, EPSILON))\<close>.
\<close>

definition compute_t_num_f :: "real \<Rightarrow> real \<Rightarrow> real \<Rightarrow> py_error + real" where
  "compute_t_num_f EPSILON theta0_rad theta =
     (let cos_diff = cos theta - cos theta0_rad
      in bind_err (np_sqrt (2 * max cos_diff EPSILON)) (\<lambda>r. np_div 1 r))"

text \<open>
  \<open>compute_integral_simpson(theta0, steps)\<close> of \<open>glm4.6thinkingtest/pendulum_analysis.py\<close>:
  one loop over \<open>i = 0, \<dots>, steps\<close>; the last node gets the value \<open>0.0\<close>, the other nodes
  \<open>1.0 / np.sqrt(arg)\<close> with no clamp; \<open>epsilon\<close> is not read.
\<close>

fun compute_integral_simpson_loop ::
  "real \<Rightarrow> real \<Rightarrow> int \<Rightarrow> nat list \<Rightarrow> real \<Rightarrow> py_error + real" where
  "compute_integral_simpson_loop h cos_theta0 steps [] integral = Inr integral"
| "compute_integral_simpson_loop h cos_theta0 steps (i # is) integral =
     (let theta = real i * h;
          cos_theta = cos theta;
          arg = 2 * (cos_theta - cos_theta0)
      in bind_err (if int i = steps then Inr 0
                   else bind_err (np_sqrt arg) (\<lambda>r. np_div 1 r)) (\<lambda>f_theta.
         let weight = (if i = 0 \<or> int i = steps then 1
                       else if i mod 2 = 1 then 4 else 2)
         in compute_integral_simpson_loop h cos_theta0 steps is (integral + weight * f_theta)))"

definition compute_integral_simpson :: "real \<Rightarrow> int \<Rightarrow> py_error + real" where
  "compute_integral_simpson theta0 steps =
     bind_err (np_div theta0 (of_int steps)) (\<lambda>h.
     bind_err (compute_integral_simpson_loop h (cos theta0) steps [0..<nat (steps + 1)] 0)
       (\<lambda>integral. Inr (integral * (h / 3))))"

text \<open>glm \<open>main\<close>: \<open>T_num[i] = 4 * np.sqrt(L / g) * integral\<close>.\<close>

definition T_num_glm :: "real \<Rightarrow> real \<Rightarrow> int \<Rightarrow> real \<Rightarrow> py_error + real" where
  "T_num_glm L g integral_steps theta0 =
     bind_err (compute_integral_simpson theta0 integral_steps) (\<lambda>integral.
     bind_err (py_div L g) (\<lambda>q.
     bind_err (np_sqrt q) (\<lambda>r.
     Inr (4 * r * integral))))"

text \<open>
  The specification's Strategy A, in the spec's words: the clamped integrand and the
  composite Simpson 1/3 sum over \<open>[0, \<theta>\<^sub>0]\<close> with \<open>n\<close> subintervals.
\<close>

definition clamped_integrand :: "real \<Rightarrow> real \<Rightarrow> real \<Rightarrow> real" where
  "clamped_integrand epsilon \<theta>\<^sub>0 \<theta> = 1 / sqrt (2 * max (cos \<theta> - cos \<theta>\<^sub>0) epsilon)"

definition simpson_spec :: "(real \<Rightarrow> real) \<Rightarrow> real \<Rightarrow> nat \<Rightarrow> real" where
  "simpson_spec F \<theta>\<^sub>0 n =
     (let h = \<theta>\<^sub>0 / real n
      in h / 3 * (F 0 + F \<theta>\<^sub>0
                  + 4 * sum_list (map (\<lambda>i. F (real i * h)) (filter odd [1..<n]))
                  + 2 * sum_list (map (\<lambda>i. F (real i * h)) (filter even [1..<n]))))"


text \<open>
  What the glm script evaluates at a node: the integrand without the clamp, and \<open>0\<close> at
  the upper endpoint \<open>theta = theta0\<close>.
\<close>

definition glm_integrand :: "real \<Rightarrow> real \<Rightarrow> real" where
  "glm_integrand theta0 theta =
     (if theta = theta0 then 0 else 1 / sqrt (2 * (cos theta - cos theta0)))"


section \<open>Exact period, strategy B: elliptic integral\<close>

text \<open>
  \<open>compute_T_numerical\<close> of the sonnet script. The \<open>for _ in range(25)\<close> loop with its
  \<open>break\<close> is \<open>agm_loop\<close>: the first argument counts the iterations left; on \<open>break\<close> the
  old \<open>a\<close> is kept.
\<close>

fun agm_loop :: "nat \<Rightarrow> real \<Rightarrow> real \<Rightarrow> py_error + real" where
  "agm_loop 0 a b = Inr a"
| "agm_loop (Suc m) a b =
     (let a_new = (a + b) / 2
      in bind_err (np_sqrt (a * b)) (\<lambda>b_new.
         if \<bar>a_new - a\<bar> < 1 / 10 ^ 15 then Inr a
         else agm_loop m a_new b_new))"

definition compute_T_numerical :: "real \<Rightarrow> real \<Rightarrow> real \<Rightarrow> int \<Rightarrow> real \<Rightarrow> py_error + real" where
  "compute_T_numerical theta0_rad L g n_steps eps =
     (let k = sin (theta0_rad / 2)
      in bind_err (np_sqrt (1 - k ^ 2)) (\<lambda>b.
         bind_err (agm_loop 25 1 b) (\<lambda>agm.
         bind_err (np_div pi (2 * agm)) (\<lambda>K_k.
         bind_err (py_div L g) (\<lambda>q.
         bind_err (np_sqrt q) (\<lambda>r.
         Inr (4 * r * K_k)))))))"

text \<open>\<open>integrand\<close>, \<open>simpson_integration\<close> and \<open>compute_T_num\<close> of the kimi script.\<close>

definition integrand :: "real \<Rightarrow> real \<Rightarrow> py_error + real" where
  "integrand phi k = bind_err (py_sqrt (1 - (k * sin phi) ^ 2)) (\<lambda>r. py_div 1 r)"

fun weighted_loop ::
  "real \<Rightarrow> (real \<Rightarrow> py_error + real) \<Rightarrow> real \<Rightarrow> real \<Rightarrow> nat list \<Rightarrow> real \<Rightarrow> py_error + real" where
  "weighted_loop w f a h [] S = Inr S"
| "weighted_loop w f a h (i # is) S =
     bind_err (f (a + real i * h)) (\<lambda>y. weighted_loop w f a h is (S + w * y))"

definition simpson_integration ::
  "(real \<Rightarrow> py_error + real) \<Rightarrow> real \<Rightarrow> real \<Rightarrow> int \<Rightarrow> py_error + real" where
  "simpson_integration f a b n =
     (if n mod 2 \<noteq> 0 then Inl ValueError
      else bind_err (py_div (b - a) (of_int n)) (\<lambda>h.
           bind_err (f a) (\<lambda>fa.
           bind_err (f b) (\<lambda>fb.
           bind_err (weighted_loop 4 f a h (filter odd [1..<nat n]) (fa + fb)) (\<lambda>S1.
           bind_err (weighted_loop 2 f a h (filter even [2..<nat n]) S1) (\<lambda>S2.
           Inr (S2 * h / 3)))))))"

definition compute_T_num :: "real \<Rightarrow> real \<Rightarrow> real \<Rightarrow> int \<Rightarrow> real \<Rightarrow> py_error + real" where
  "compute_T_num L g theta0 n epsilon =
     (if theta0 = 0
      then bind_err (py_div L g) (\<lambda>q. bind_err (py_sqrt q) (\<lambda>r. Inr (2 * pi * r)))
      else (let k = sin (theta0 / 2)
            in bind_err (simpson_integration (\<lambda>phi. integrand phi k) 0 (pi / 2) n) (\<lambda>integral.
               bind_err (py_div L g) (\<lambda>q.
               bind_err (py_sqrt q) (\<lambda>r.
               Inr (4 * r * integral))))))"


section \<open>Error aggregation and summary\<close>

text \<open>
  gpt5 \<open>main\<close>, step 5: \<open>[abs(t - tn) / tn for t, tn in zip(ts, T_num)]\<close>; \<open>zip\<close> stops at
  the shorter list, the division raises on \<open>tn = 0\<close>.
\<close>

definition rel_errors :: "real list \<Rightarrow> real list \<Rightarrow> py_error + real list" where
  "rel_errors ts tns = map_err (\<lambda>(t, tn). py_div \<bar>t - tn\<bar> tn) (zip ts tns)"

text \<open>
  The builtins \<open>max(xs)\<close> (the first largest element; \<open>ValueError\<close> on an empty list),
  \<open>xs.index(v)\<close> (the first position of \<open>v\<close>; \<open>ValueError\<close> when absent) and \<open>xs[i]\<close>
  for \<open>i \<ge> 0\<close> (\<open>IndexError\<close> out of range).
\<close>

fun py_max :: "real list \<Rightarrow> py_error + real" where
  "py_max [] = Inl ValueError"
| "py_max (x # xs) = Inr (foldl (\<lambda>m y. if y > m then y else m) x xs)"

fun py_index :: "real list \<Rightarrow> real \<Rightarrow> py_error + nat" where
  "py_index [] v = Inl ValueError"
| "py_index (x # xs) v =
     (if x = v then Inr 0 else bind_err (py_index xs v) (\<lambda>i. Inr (Suc i)))"

definition py_nth :: "'a list \<Rightarrow> nat \<Rightarrow> py_error + 'a" where
  "py_nth xs i = (if i < length xs then Inr (xs ! i) else Inl IndexError)"

text \<open>The \<open>summary\<close> dictionary that \<open>main\<close> prints; the fields are its numeric keys.\<close>

record summary =
  max_err_small :: real
  max_err_series :: real
  largest_error_at_deg :: real

text \<open>gpt5 \<open>main\<close>, lines 144 to 154.\<close>

definition summary_gpt5 :: "real list \<Rightarrow> real list \<Rightarrow> real list \<Rightarrow> py_error + summary" where
  "summary_gpt5 theta_deg errs_small errs_series =
     bind_err (py_max errs_small) (\<lambda>m_small.
     bind_err (py_max errs_series) (\<lambda>m_series.
     bind_err (py_index errs_small m_small) (\<lambda>idx_max_small.
     bind_err (py_nth theta_deg idx_max_small) (\<lambda>deg_at_max.
     Inr \<lparr>max_err_small = m_small, max_err_series = m_series,
          largest_error_at_deg = deg_at_max\<rparr>))))"

text \<open>
  gemini \<open>main\<close>, lines 180 to 186: \<open>np.max\<close> of each error array, and the constant
  \<open>THETA_HIGH_DEG\<close> as the angle.
\<close>

definition summary_gemini :: "real \<Rightarrow> real list \<Rightarrow> real list \<Rightarrow> py_error + summary" where
  "summary_gemini THETA_HIGH_DEG err_small_array err_series_array =
     bind_err (py_max err_small_array) (\<lambda>m_small.
     bind_err (py_max err_series_array) (\<lambda>m_series.
     Inr \<lparr>max_err_small = m_small, max_err_series = m_series,
          largest_error_at_deg = THETA_HIGH_DEG\<rparr>))"

text \<open>
  The specification's summary statistic, in the spec's words: the angle at which the
  maximum of an error sequence occurs, the first occurrence in angle order.
\<close>

definition first_argmax :: "real list \<Rightarrow> nat" where
  "first_argmax es = length (takeWhile (\<lambda>e. e \<noteq> Max (set es)) es)"

definition angle_of_max :: "real list \<Rightarrow> real list \<Rightarrow> real" where
  "angle_of_max angles es = angles ! first_argmax es"


section \<open>The run\<close>

text \<open>
  gpt5 \<open>main\<close> without its file output: validation first, then the grid, the three
  period lists, the two error lists and the summary. The result holds the lists of
  \<open>data_obj\<close> in the order \<open>theta0_deg\<close>, \<open>theta0_rad\<close>, \<open>T0\<close>, \<open>T_series\<close>, \<open>T_num\<close>,
  \<open>err_small\<close>, \<open>err_series\<close>, and the summary.
\<close>

definition main_gpt5 ::
  "real \<Rightarrow> real \<Rightarrow> real \<Rightarrow> real \<Rightarrow> int \<Rightarrow> int \<Rightarrow> real
    \<Rightarrow> py_error + ((real list \<times> real list \<times> real list \<times> real list \<times> real list
                     \<times> real list \<times> real list) \<times> summary)" where
  "main_gpt5 L g theta_low_deg theta_high_deg sample_count integral_steps epsilon =
     bind_err (validate_inputs_gpt5 integral_steps theta_low_deg theta_high_deg sample_count)
       (\<lambda>_.
     let theta_deg = linspace theta_low_deg theta_high_deg sample_count;
         theta_rad = map radians theta_deg
     in bind_err (T0_const L g) (\<lambda>t0.
     let T0 = T0_list t0 theta_rad;
         T_series = T_series_list t0 theta_rad
     in bind_err (map_err (compute_true_period L g integral_steps epsilon) theta_rad) (\<lambda>T_num.
        bind_err (rel_errors T0 T_num) (\<lambda>errs_small.
        bind_err (rel_errors T_series T_num) (\<lambda>errs_series.
        bind_err (summary_gpt5 theta_deg errs_small errs_series) (\<lambda>s.
        Inr ((theta_deg, theta_rad, T0, T_series, T_num, errs_small, errs_series), s)))))))"


section \<open>Basic facts\<close>

lemma bind_err_Inl [simp]: "bind_err (Inl e) k = Inl e"
  by (simp add: bind_err_def)

lemma bind_err_Inr [simp]: "bind_err (Inr x) k = k x"
  by (simp add: bind_err_def)

lemma py_div_Inr [simp]: "y \<noteq> 0 \<Longrightarrow> py_div x y = Inr (x / y)"
  by (simp add: py_div_def)

lemma py_sqrt_Inr [simp]: "0 \<le> x \<Longrightarrow> py_sqrt x = Inr (sqrt x)"
  by (simp add: py_sqrt_def)

lemma np_div_Inr [simp]: "y \<noteq> 0 \<Longrightarrow> np_div x y = Inr (x / y)"
  by (simp add: np_div_def)

lemma np_sqrt_Inr [simp]: "0 \<le> x \<Longrightarrow> np_sqrt x = Inr (sqrt x)"
  by (simp add: np_sqrt_def)


section \<open>Input validation: what each validator rejects\<close>

text \<open>
  Claim C3, as the code has it. The gpt5 validator raises exactly when
  \<open>integral_steps\<close> is odd, or \<open>0 < low < high \<le> 89.999\<close> fails, or \<open>sample_count < 4\<close>,
  and returns normally otherwise; so each of the four conditions of the specification
  raises, and a failed validation is the result of the whole run, before any period is
  computed. The gemini validator raises exactly on the specification's four conditions.
  The sonnet validator raises \<open>AssertionError\<close> exactly when \<open>integral_steps\<close> is odd or
  below 100, or \<open>low \<ge> high\<close>, or \<open>sample_count < 4\<close>; it checks neither \<open>0 < low\<close> nor
  \<open>high < 90\<close>.
\<close>

theorem validator_characterised:
  "validate_inputs_gpt5 n lo hi c =
     (if odd n \<or> \<not> (0 < lo \<and> lo < hi \<and> hi \<le> 89.999) \<or> c < 4
      then Inl ValueError else Inr ())
   \<and> (config_rejected n lo hi c \<longrightarrow> validate_inputs_gpt5 n lo hi c = Inl ValueError)
   \<and> (validate_inputs_gpt5 n lo hi c = Inl ValueError
        \<longrightarrow> main_gpt5 L g lo hi c n epsilon = Inl ValueError)
   \<and> validate_inputs_gemini n lo hi c =
     (if config_rejected n lo hi c then Inl ValueError else Inr ())
   \<and> validate_inputs_sonnet n lo hi c =
     (if odd n \<or> \<not> lo < hi \<or> c < 4 \<or> n < 100 then Inl AssertionError else Inr ())"
  by (auto simp: validate_inputs_gpt5_def validate_inputs_gemini_def validate_inputs_sonnet_def
      config_rejected_def odd_iff_mod_2_eq_one main_gpt5_def)

theorem validator_characterised_witness:
  "config_rejected 2001 5 60 12
   \<and> validate_inputs_gpt5 2001 5 60 12 = Inl ValueError
   \<and> main_gpt5 1 9.80665 5 60 12 2001 (1 / 10 ^ 10) = Inl ValueError"
  using validator_characterised [of 2001 5 60 12 1 "9.80665" "1 / 10 ^ 10"]
  by (simp add: config_rejected_def)

text \<open>
  Claim C3 as stated fails on both cited validators: at \<open>angle_high_deg = 89.9995\<close> none
  of the four conditions holds and the gpt5 validator raises; at \<open>angle_high_deg = 95\<close>
  the third condition holds and the sonnet validator returns normally.
\<close>

theorem validator_counterexample:
  "\<not> config_rejected 2000 5 89.9995 12
   \<and> validate_inputs_gpt5 2000 5 89.9995 12 = Inl ValueError
   \<and> config_rejected 2000 5 95 12
   \<and> validate_inputs_sonnet 2000 5 95 12 = Inr ()"
  by (simp add: config_rejected_def validate_inputs_gpt5_def validate_inputs_sonnet_def)


section \<open>Rounding to the nearest double\<close>

lemma pow2_powr: "pow2 e = 2 powr of_int e"
proof (cases "0 \<le> e")
  case True
  then show ?thesis by (simp add: pow2_def powr_realpow [symmetric])
next
  case False
  then have "2 powr real_of_int e = 1 / 2 powr real_of_int (- e)"
    by (simp add: powr_minus divide_simps)
  also have "\<dots> = 1 / 2 ^ nat (- e)"
    using False by (simp add: powr_realpow [symmetric])
  finally show ?thesis using False by (simp add: pow2_def)
qed

lemma pow2_pos [simp]: "0 < pow2 e"
  by (simp add: pow2_powr)

lemma pow2_nonneg [simp]: "0 \<le> pow2 e"
  using pow2_pos [of e] by linarith

lemma pow2_add: "pow2 (a + b) = pow2 a * pow2 b"
  by (simp add: pow2_powr powr_add)

lemma pow2_mono: "a \<le> b \<Longrightarrow> pow2 a \<le> pow2 b"
  by (simp add: pow2_powr)

lemma floor_log2_eq:
  assumes "0 < x" and "pow2 e \<le> x" and "x < pow2 (e + 1)"
  shows "\<lfloor>log 2 x\<rfloor> = e"
  using assms by (simp add: floor_log_eq_powr_iff pow2_powr)

lemma fl_eval:
  assumes "pow2 e \<le> x" and "x < pow2 (e + 1)" and "- 1022 \<le> e"
  shows "fl x = of_int (round_even (x / pow2 (e - 52))) * pow2 (e - 52)"
proof -
  have x: "0 < x" using assms(1) pow2_pos [of e] by linarith
  have "\<lfloor>log 2 \<bar>x\<bar>\<rfloor> = e" using x assms by (simp add: floor_log2_eq)
  then show ?thesis using x assms(3) by (simp add: fl_def dexp_def Let_def max_def)
qed

lemma round_even_of_int [simp]: "round_even (of_int m) = m"
  by (simp add: round_even_def)


lemma round_even_bounds: "\<lfloor>y\<rfloor> \<le> round_even y" "round_even y \<le> \<lfloor>y\<rfloor> + 1"
  by (simp_all add: round_even_def Let_def)

lemma round_even_mono:
  assumes "y \<le> z"
  shows "round_even y \<le> round_even z"
proof (cases "\<lfloor>y\<rfloor> < \<lfloor>z\<rfloor>")
  case True
  then show ?thesis
    using round_even_bounds(2) [of y] round_even_bounds(1) [of z] by linarith
next
  case False
  then have eq: "\<lfloor>z\<rfloor> = \<lfloor>y\<rfloor>" using assms floor_mono [of y z] by linarith
  have "y - of_int \<lfloor>y\<rfloor> \<le> z - of_int \<lfloor>y\<rfloor>" using assms by simp
  then show ?thesis
    by (auto simp: round_even_def Let_def eq)
qed

lemma fl_zero [simp]: "fl 0 = 0"
  by (simp add: fl_def)

lemma fl_minus: "fl (- x) = - fl x"
  by (simp add: fl_def dexp_def Let_def)

lemma fl_pos_eq:
  "0 < x \<Longrightarrow> fl x = of_int (round_even (x / pow2 (dexp x - 52))) * pow2 (dexp x - 52)"
  by (simp add: fl_def Let_def)

lemma dexp_upper:
  assumes "0 < x"
  shows "x < pow2 (dexp x + 1)"
proof -
  have "x < 2 powr (of_int \<lfloor>log 2 x\<rfloor> + 1)"
    using assms floor_log_eq_powr_iff [of x 2 "\<lfloor>log 2 x\<rfloor>"] by simp
  also have "\<dots> = pow2 (\<lfloor>log 2 x\<rfloor> + 1)" by (simp add: pow2_powr)
  also have "\<dots> \<le> pow2 (dexp x + 1)"
    using assms by (intro pow2_mono) (simp add: dexp_def)
  finally show ?thesis .
qed

lemma dexp_lower:
  assumes "0 < x" and "- 1022 \<le> \<lfloor>log 2 x\<rfloor>"
  shows "pow2 (dexp x) \<le> x"
proof -
  have "dexp x = \<lfloor>log 2 x\<rfloor>" using assms by (simp add: dexp_def)
  moreover have "2 powr of_int \<lfloor>log 2 x\<rfloor> \<le> x"
    using assms(1) floor_log_eq_powr_iff [of x 2 "\<lfloor>log 2 x\<rfloor>"] by simp
  ultimately show ?thesis by (simp add: pow2_powr)
qed

lemma dexp_mono:
  assumes "0 < x" and "x \<le> y"
  shows "dexp x \<le> dexp y"
proof -
  have "log 2 x \<le> log 2 y" using assms by simp
  then have "\<lfloor>log 2 x\<rfloor> \<le> \<lfloor>log 2 y\<rfloor>" by (rule floor_mono)
  then show ?thesis using assms by (simp add: dexp_def)
qed

lemma pow2_split: "pow2 (e + 1) = 2 ^ 53 * pow2 (e - 52)" "pow2 e = 2 ^ 52 * pow2 (e - 52)"
proof -
  have "pow2 (e + 1) = pow2 (53 + (e - 52))" "pow2 e = pow2 (52 + (e - 52))"
    by (rule arg_cong [where f = pow2], simp)+
  then have "pow2 (e + 1) = pow2 53 * pow2 (e - 52)" "pow2 e = pow2 52 * pow2 (e - 52)"
    by (simp_all only: pow2_add)
  then show "pow2 (e + 1) = 2 ^ 53 * pow2 (e - 52)" "pow2 e = 2 ^ 52 * pow2 (e - 52)"
    by (simp_all add: pow2_def)
qed

lemma fl_le_pow2:
  assumes "0 < x"
  shows "fl x \<le> pow2 (dexp x + 1)"
proof -
  let ?u = "pow2 (dexp x - 52)"
  have "x < 2 ^ 53 * ?u"
    using dexp_upper [OF assms] unfolding pow2_split(1) [of "dexp x"] .
  then have "x / ?u \<le> 2 ^ 53"
    by (simp add: pos_divide_le_eq)
  then have "round_even (x / ?u) \<le> round_even (of_int (2 ^ 53))"
    by (intro round_even_mono) simp
  then have "round_even (x / ?u) \<le> 2 ^ 53" by (simp only: round_even_of_int)
  then have "real_of_int (round_even (x / ?u)) \<le> real_of_int (2 ^ 53)"
    by (simp only: of_int_le_iff)
  then have "real_of_int (round_even (x / ?u)) \<le> 2 ^ 53" by simp
  then have "real_of_int (round_even (x / ?u)) * ?u \<le> 2 ^ 53 * ?u"
    by (intro mult_right_mono) simp_all
  then show ?thesis
    using assms by (simp add: fl_pos_eq pow2_split(1) [of "dexp x"])
qed

lemma fl_ge_pow2:
  assumes "0 < x" and "- 1022 \<le> \<lfloor>log 2 x\<rfloor>"
  shows "pow2 (dexp x) \<le> fl x"
proof -
  let ?u = "pow2 (dexp x - 52)"
  have "2 ^ 52 * ?u \<le> x"
    using dexp_lower [OF assms] pow2_split(2) [of "dexp x"] by simp
  then have "2 ^ 52 \<le> x / ?u"
    by (simp add: pos_le_divide_eq)
  then have "round_even (of_int (2 ^ 52)) \<le> round_even (x / ?u)"
    by (intro round_even_mono) simp
  then have "2 ^ 52 \<le> round_even (x / ?u)" by (simp only: round_even_of_int)
  then have "real_of_int (2 ^ 52) \<le> real_of_int (round_even (x / ?u))"
    by (simp only: of_int_le_iff)
  then have "2 ^ 52 \<le> real_of_int (round_even (x / ?u))" by simp
  then have "2 ^ 52 * ?u \<le> real_of_int (round_even (x / ?u)) * ?u"
    by (intro mult_right_mono) simp_all
  then show ?thesis
    using assms by (simp add: fl_pos_eq pow2_split(2) [of "dexp x"])
qed

lemma fl_nonneg:
  assumes "0 \<le> x"
  shows "0 \<le> fl x"
proof (cases "x = 0")
  case True
  then show ?thesis by simp
next
  case False
  then have x: "0 < x" using assms by simp
  have "round_even (of_int 0) \<le> round_even (x / pow2 (dexp x - 52))"
    using x by (intro round_even_mono) simp
  then have "0 \<le> round_even (x / pow2 (dexp x - 52))" by (simp only: round_even_of_int)
  then show ?thesis using x by (simp add: fl_pos_eq)
qed

lemma fl_mono_pos:
  assumes "0 < x" and "x \<le> y"
  shows "fl x \<le> fl y"
proof (cases "dexp x = dexp y")
  case True
  have y: "0 < y" using assms by linarith
  have "x / pow2 (dexp y - 52) \<le> y / pow2 (dexp y - 52)"
    using assms(2) by (intro divide_right_mono) simp_all
  then have "round_even (x / pow2 (dexp y - 52)) \<le> round_even (y / pow2 (dexp y - 52))"
    by (rule round_even_mono)
  then have "real_of_int (round_even (x / pow2 (dexp y - 52))) * pow2 (dexp y - 52)
      \<le> real_of_int (round_even (y / pow2 (dexp y - 52))) * pow2 (dexp y - 52)"
    by (intro mult_right_mono) simp_all
  then show ?thesis using assms(1) y True by (simp add: fl_pos_eq)
next
  case False
  have y: "0 < y" using assms by linarith
  have lt: "dexp x < dexp y" using False dexp_mono [OF assms] by linarith
  have "- 1022 \<le> dexp x" by (simp add: dexp_def)
  then have "- 1022 < dexp y" using lt by linarith
  then have ylog: "- 1022 \<le> \<lfloor>log 2 y\<rfloor>" using y by (simp add: dexp_def max_def split: if_splits)
  have "fl x \<le> pow2 (dexp x + 1)" using assms(1) by (rule fl_le_pow2)
  also have "\<dots> \<le> pow2 (dexp y)" using lt by (intro pow2_mono) simp
  also have "\<dots> \<le> fl y" using y ylog by (rule fl_ge_pow2)
  finally show ?thesis .
qed

lemma fl_mono:
  assumes "x \<le> y"
  shows "fl x \<le> fl y"
proof -
  consider "0 < x" | "x \<le> 0" "0 \<le> y" | "y < 0" by linarith
  then show ?thesis
  proof cases
    case 1
    then show ?thesis using assms by (rule fl_mono_pos)
  next
    case 2
    have "0 \<le> fl (- x)" using 2(1) by (intro fl_nonneg) simp
    then have "fl x \<le> 0" by (simp add: fl_minus)
    moreover have "0 \<le> fl y" using 2(2) by (rule fl_nonneg)
    ultimately show ?thesis by linarith
  next
    case 3
    have "fl (- y) \<le> fl (- x)" using 3 assms by (intro fl_mono_pos) simp_all
    then show ?thesis by (simp add: fl_minus)
  qed
qed


lemma round_even_err: "\<bar>of_int (round_even y) - y\<bar> \<le> 1 / 2"
proof -
  have "of_int \<lfloor>y\<rfloor> \<le> y" "y < of_int \<lfloor>y\<rfloor> + 1" by linarith+
  then show ?thesis
    by (auto simp: round_even_def Let_def abs_le_iff)
qed

lemma pow2_53: "pow2 (e - 52) = 2 * pow2 (e - 53)"
proof -
  have "pow2 (e - 52) = pow2 (1 + (e - 53))" by (rule arg_cong [where f = pow2]) simp
  also have "\<dots> = pow2 1 * pow2 (e - 53)" by (simp only: pow2_add)
  finally show ?thesis by (simp add: pow2_def)
qed

lemma dexp_minus: "dexp (- x) = dexp x"
  by (simp add: dexp_def)

lemma fl_abs_err: "\<bar>fl x - x\<bar> \<le> pow2 (dexp x - 53)"
proof -
  have pos: "\<bar>fl x - x\<bar> \<le> pow2 (dexp x - 53)" if x: "0 < x" for x
  proof -
    define u where "u = pow2 (dexp x - 52)"
    have u: "0 < u" unfolding u_def by simp
    have "fl x - x = (of_int (round_even (x / u)) - x / u) * u"
      using x u by (simp add: fl_pos_eq u_def [symmetric] field_simps)
    then have "\<bar>fl x - x\<bar> = \<bar>of_int (round_even (x / u)) - x / u\<bar> * u"
      using u by (simp add: abs_mult)
    also have "\<dots> \<le> 1 / 2 * u"
      using u by (intro mult_right_mono round_even_err) simp
    also have "\<dots> = pow2 (dexp x - 53)" by (simp add: u_def pow2_53)
    finally show ?thesis .
  qed
  consider "0 < x" | "x = 0" | "x < 0" by linarith
  then show ?thesis
  proof cases
    case 1
    then show ?thesis by (rule pos)
  next
    case 2
    then show ?thesis by simp
  next
    case 3
    then have "\<bar>fl (- x) - (- x)\<bar> \<le> pow2 (dexp (- x) - 53)" by (intro pos) simp
    then show ?thesis by (simp add: fl_minus dexp_minus)
  qed
qed

lemma dexp_le:
  assumes "x \<noteq> 0" and "\<bar>x\<bar> < pow2 (e + 1)" and "- 1022 \<le> e"
  shows "dexp x \<le> e"
proof -
  have x: "0 < \<bar>x\<bar>" using assms(1) by simp
  have "log 2 \<bar>x\<bar> < log 2 (pow2 (e + 1))"
    using x assms(2) by simp
  also have "\<dots> = of_int (e + 1)" by (simp add: pow2_powr)
  finally have "\<lfloor>log 2 \<bar>x\<bar>\<rfloor> < e + 1" by linarith
  then show ?thesis using assms(3) by (simp add: dexp_def)
qed

lemma fl_err_256:
  assumes "\<bar>x\<bar> < 256"
  shows "\<bar>fl x - x\<bar> \<le> 1 / 2 ^ 46"
proof (cases "x = 0")
  case True
  then show ?thesis by simp
next
  case False
  have "\<bar>x\<bar> < pow2 (7 + 1)" using assms by (simp add: pow2_def)
  then have "dexp x \<le> 7" using False by (intro dexp_le) simp_all
  then have "pow2 (dexp x - 53) \<le> pow2 (7 - 53)" by (intro pow2_mono) simp
  also have "\<dots> = 1 / 2 ^ 46" by (simp add: pow2_def)
  finally show ?thesis using fl_abs_err [of x] by linarith
qed

lemma fl_rel_err:
  assumes "pow2 (- 1022) \<le> \<bar>x\<bar>"
  shows "\<bar>fl x - x\<bar> \<le> \<bar>x\<bar> / 2 ^ 53"
proof -
  have x: "0 < \<bar>x\<bar>" using assms pow2_pos [of "- 1022"] by linarith
  have "log 2 (pow2 (- 1022)) \<le> log 2 \<bar>x\<bar>"
    using assms x by simp
  then have "of_int (- 1022) \<le> log 2 \<bar>x\<bar>" by (simp add: pow2_powr)
  then have "- 1022 \<le> \<lfloor>log 2 \<bar>x\<bar>\<rfloor>" by (simp only: le_floor_iff)
  then have "- 1022 \<le> \<lfloor>log 2 \<bar>\<bar>x\<bar>\<bar>\<rfloor>" by simp
  then have lo: "pow2 (dexp \<bar>x\<bar>) \<le> \<bar>x\<bar>" using x by (intro dexp_lower) simp_all
  have d: "dexp \<bar>x\<bar> = dexp x" by (simp add: dexp_def)
  have "pow2 (dexp x) = pow2 (53 + (dexp x - 53))" by (rule arg_cong [where f = pow2]) simp
  also have "\<dots> = 2 ^ 53 * pow2 (dexp x - 53)" by (simp only: pow2_add) (simp add: pow2_def)
  finally have "2 ^ 53 * pow2 (dexp x - 53) \<le> \<bar>x\<bar>" using lo d by simp
  then have "pow2 (dexp x - 53) \<le> \<bar>x\<bar> / 2 ^ 53" by (simp add: field_simps)
  then show ?thesis using fl_abs_err [of x] by linarith
qed

lemma fl_pow2: "- 1022 \<le> e \<Longrightarrow> fl (pow2 e) = pow2 e"
proof -
  assume e: "- 1022 \<le> e"
  have "pow2 e < pow2 (e + 1)" by (simp add: pow2_powr)
  then have "fl (pow2 e) = of_int (round_even (pow2 e / pow2 (e - 52))) * pow2 (e - 52)"
    using e by (intro fl_eval) simp_all
  also have "pow2 e / pow2 (e - 52) = of_int (2 ^ 52)"
  proof -
    have "pow2 (e - 52) \<noteq> 0" using pow2_pos [of "e - 52"] by linarith
    then show ?thesis by (simp add: pow2_split(2) [of e])
  qed
  also have "of_int (round_even (of_int (2 ^ 52))) * pow2 (e - 52) = pow2 e"
    by (simp only: round_even_of_int) (simp add: pow2_split(2) [of e])
  finally show ?thesis .
qed

lemma fl_of_nat:
  assumes "k < 2 ^ 53"
  shows "fl (real k) = real k"
proof (cases "k = 0")
  case True
  then show ?thesis by simp
next
  case False
  then have k: "0 < real k" "1 \<le> real k" by simp_all
  define e where "e = \<lfloor>log 2 (real k)\<rfloor>"
  have b: "2 powr of_int e \<le> real k" "real k < 2 powr (of_int e + 1)"
    using k(1) floor_log_eq_powr_iff [of "real k" 2 e] by (simp_all add: e_def)
  have "(2::real) powr 0 < 2 powr (of_int e + 1)" using b(2) k(2) by simp
  then have "0 < real_of_int e + 1" by (simp only: powr_less_cancel_iff) 
  then have e0: "0 \<le> e" by linarith
  have "real k < 2 ^ 53" using assms by (metis of_nat_less_iff of_nat_numeral of_nat_power)
  moreover have "(2::real) ^ 53 = 2 powr 53" by (simp add: powr_realpow [symmetric])
  ultimately have "(2::real) powr of_int e < 2 powr 53" using b(1) by linarith
  then have "real_of_int e < 53" by (simp only: powr_less_cancel_iff)
  then have e52: "e \<le> 52" by linarith
  have m: "max e (- 1022) = e" using e0 by simp
  have d: "dexp (real k) = e" by (simp add: dexp_def e_def [symmetric] m)
  define q where "q = nat (52 - e)"
  have u: "pow2 (e - 52) = 1 / 2 ^ q"
  proof (cases "e = 52")
    case True
    then show ?thesis by (simp add: pow2_def q_def)
  next
    case False
    then have "e - 52 < 0" using e52 by linarith
    then show ?thesis by (simp add: pow2_def q_def)
  qed
  have "real k / pow2 (e - 52) = of_int (int k * 2 ^ q)" by (simp add: u)
  then have "round_even (real k / pow2 (e - 52)) = int k * 2 ^ q"
    by (simp only: round_even_of_int)
  then show ?thesis
    using k(1) by (simp add: fl_pos_eq d u)
qed


lemma fl_numeral: "(numeral w :: nat) < 2 ^ 53 \<Longrightarrow> fl (numeral w) = numeral w"
  using fl_of_nat [of "numeral w"] by simp

lemma fl_one [simp]: "fl 1 = 1"
  using fl_of_nat [of 1] by simp


section \<open>Angle grid: length, elements, order and endpoints\<close>

lemma linspace_length: "n \<noteq> 1 \<Longrightarrow> length (linspace a b n) = nat n"
  by (simp add: linspace_def Let_def)

lemma linspace_nth:
  "n \<noteq> 1 \<Longrightarrow> i < nat n \<Longrightarrow> linspace a b n ! i = a + real i * (b - a) / (of_int n - 1)"
  by (simp add: linspace_def Let_def)

lemma linspace_double_length: "n \<noteq> 1 \<Longrightarrow> length (linspace_double a b n) = nat n"
  by (simp add: linspace_double_def Let_def)

lemma linspace_double_nth:
  "n \<noteq> 1 \<Longrightarrow> i < nat n \<Longrightarrow>
     linspace_double a b n ! i
       = fl (a + fl (fl (real i) * fl (fl (b - a) / fl (of_int n - 1))))"
  by (simp add: linspace_double_def Let_def)

lemma linspace_double_sorted:
  assumes "a \<le> b" and "1 < n"
  shows "sorted (linspace_double a b n)"
  unfolding sorted_iff_nth_mono
proof (intro allI impI)
  fix i j assume ij: "i \<le> j" "j < length (linspace_double a b n)"
  let ?step = "fl (fl (b - a) / fl (of_int n - 1))"
  have n1: "n \<noteq> 1" using assms(2) by simp
  have j: "j < nat n" using ij(2) n1 by (simp add: linspace_double_length)
  then have i: "i < nat n" using ij(1) by simp
  have "0 \<le> fl (b - a)" using assms(1) by (intro fl_nonneg) simp
  moreover have "0 \<le> fl (of_int n - 1)" using assms(2) by (intro fl_nonneg) simp
  ultimately have "0 \<le> fl (b - a) / fl (of_int n - 1)" by simp
  then have step: "0 \<le> ?step" by (rule fl_nonneg)
  have "fl (real i) \<le> fl (real j)" using ij(1) by (intro fl_mono) simp
  then have "fl (real i) * ?step \<le> fl (real j) * ?step"
    using step by (rule mult_right_mono)
  then have "fl (fl (real i) * ?step) \<le> fl (fl (real j) * ?step)" by (rule fl_mono)
  then have "a + fl (fl (real i) * ?step) \<le> a + fl (fl (real j) * ?step)" by simp
  then have "fl (a + fl (fl (real i) * ?step)) \<le> fl (a + fl (fl (real j) * ?step))"
    by (rule fl_mono)
  moreover have "linspace_double a b n ! i = fl (a + fl (fl (real i) * ?step))"
    using n1 i by (rule linspace_double_nth)
  moreover have "linspace_double a b n ! j = fl (a + fl (fl (real j) * ?step))"
    using n1 j by (rule linspace_double_nth)
  ultimately show "linspace_double a b n ! i \<le> linspace_double a b n ! j"
    by simp
qed

lemma linspace_double_hd:
  assumes "1 < n" and "fl a = a"
  shows "hd (linspace_double a b n) = a"
proof -
  have n1: "n \<noteq> 1" and pos: "0 < nat n" using assms(1) by simp_all
  have "linspace_double a b n \<noteq> []"
    using pos n1 linspace_double_length [of n a b] by auto
  then have "hd (linspace_double a b n) = linspace_double a b n ! 0"
    by (simp add: hd_conv_nth)
  also have "\<dots> = fl (a + fl (fl (real 0) * fl (fl (b - a) / fl (of_int n - 1))))"
    using n1 pos by (rule linspace_double_nth)
  also have "\<dots> = a" using assms(2) by simp
  finally show ?thesis .
qed

lemma linspace_double_last:
  assumes "1 < n"
  shows "last (linspace_double a b n)
     = fl (a + fl (fl (of_int n - 1) * fl (fl (b - a) / fl (of_int n - 1))))"
proof -
  have n1: "n \<noteq> 1" and pos: "0 < nat n" using assms by simp_all
  have len: "length (linspace_double a b n) = nat n" using n1 by (rule linspace_double_length)
  then have "linspace_double a b n \<noteq> []" using pos by auto
  then have "last (linspace_double a b n) = linspace_double a b n ! (nat n - 1)"
    using len by (simp add: last_conv_nth)
  also have "\<dots> = fl (a + fl (fl (real (nat n - 1)) * fl (fl (b - a) / fl (of_int n - 1))))"
    using n1 pos by (intro linspace_double_nth) simp_all
  also have "real (nat n - 1) = of_int n - 1" using assms by (simp add: of_nat_diff)
  finally show ?thesis .
qed

lemma linspace_double_fixed:
  "linspace_double 5 60 12 = [5, 10, 15, 20, 25, 30, 35, 40, 45, 50, 55, 60]"
proof -
  have "[0..<12] = [0, 1, 2, 3, 4, 5, 6, 7, 8, 9, 10, 11 :: nat]" by code_simp
  then show ?thesis
    by (simp add: linspace_double_def fl_numeral)
qed

lemma fl_11_5: "fl (11 / 5) = 4953959590107546 / 2 ^ 51"
  using fl_eval [of 1 "11 / 5"] by (simp add: pow2_def round_even_def)

lemma linspace_double_last_26: "last (linspace_double 5 60 26) = 60 + 1 / 2 ^ 47"
proof -
  have "last (linspace_double 5 60 26) = linspace_double 5 60 26 ! 25"
    by (simp add: last_conv_nth linspace_double_length linspace_double_def)
  also have "\<dots> = fl (5 + fl (fl 25 * fl (fl 55 / fl 25)))"
    using linspace_double_nth [of 26 25 5 60] by simp
  also have "fl 55 = 55" by (simp add: fl_numeral)
  also have "fl 25 = 25" by (simp add: fl_numeral)
  also have "(55 / 25 :: real) = 11 / 5" by simp
  also have "fl (11 / 5) = 4953959590107546 / 2 ^ 51" by (rule fl_11_5)
  also have "fl (25 * (4953959590107546 / 2 ^ 51)) = 7740561859543041 / 2 ^ 47"
    using fl_eval [of 5 "25 * (4953959590107546 / 2 ^ 51)"]
    by (simp add: pow2_def round_even_def)
  also have "fl (5 + 7740561859543041 / 2 ^ 47) = 60 + 1 / 2 ^ 47"
    using fl_eval [of 5 "5 + 7740561859543041 / 2 ^ 47"]
    by (simp add: pow2_def round_even_def)
  finally show ?thesis .
qed

lemma linspace_double_tie:
  "linspace_double 1 (1 + 1 / 2 ^ 52) 4 ! 0 = 1"
  "linspace_double 1 (1 + 1 / 2 ^ 52) 4 ! 1 = 1"
proof -
  have a: "fl (1 / 2 ^ 52) = 1 / 2 ^ 52"
    using fl_eval [of "- 52" "1 / 2 ^ 52"] by (simp add: pow2_def round_even_def)
  have b: "fl (1 / 2 ^ 52 / 3) = 6004799503160661 / 2 ^ 106"
    using fl_eval [of "- 54" "1 / 2 ^ 52 / 3"] by (simp add: pow2_def round_even_def)
  have c: "fl (6004799503160661 / 2 ^ 106) = 6004799503160661 / 2 ^ 106"
    using fl_eval [of "- 54" "6004799503160661 / 2 ^ 106"] by (simp add: pow2_def round_even_def)
  have d: "fl (1 + 6004799503160661 / 2 ^ 106) = 1"
    using fl_eval [of 0 "1 + 6004799503160661 / 2 ^ 106"] by (simp add: pow2_def round_even_def)
  have e1: "(1 + 1 / 2 ^ 52 - 1 :: real) = 1 / 2 ^ 52" by simp
  have e2: "(of_int 4 - 1 :: real) = 3" by simp
  have e3: "fl 3 = 3" by (simp add: fl_numeral)
  have step: "fl (fl (1 + 1 / 2 ^ 52 - 1) / fl (of_int 4 - 1)) = 6004799503160661 / 2 ^ 106"
    by (simp only: e1 e2 e3 a b)
  show "linspace_double 1 (1 + 1 / 2 ^ 52) 4 ! 0 = 1"
    using linspace_double_nth [of 4 0 1 "1 + 1 / 2 ^ 52"] by simp
  have "linspace_double 1 (1 + 1 / 2 ^ 52) 4 ! 1
      = fl (1 + fl (fl (real 1) * fl (fl (1 + 1 / 2 ^ 52 - 1) / fl (of_int 4 - 1))))"
    by (rule linspace_double_nth) simp_all
  also have "\<dots> = fl (1 + fl (6004799503160661 / 2 ^ 106))"
    by (simp only: step of_nat_1 fl_one mult_1)
  also have "\<dots> = 1" by (simp only: c d)
  finally show "linspace_double 1 (1 + 1 / 2 ^ 52) 4 ! 1 = 1" .
qed

lemma linspace_double_resolved:
  assumes "0 \<le> a" and "a < b" and "b \<le> 90" and "1 < n" and "n \<le> 2 ^ 53"
    and "1 / 2 ^ 44 < fl (fl (b - a) / fl (of_int n - 1))"
  shows "sorted_wrt (<) (linspace_double a b n)"
    and "\<bar>last (linspace_double a b n) - b\<bar> \<le> 1 / 2 ^ 44"
proof -
  define m :: real where "m = of_int n - 1"
  define d where "d = fl (b - a)"
  define q where "q = d / m"
  define s where "s = fl q"
  define p where "p = (\<lambda>i::nat. fl (real i * s))"
  have n1: "n \<noteq> 1" using assms(4) by simp
  have m1: "1 \<le> m" using assms(4) by (simp add: m_def)
  have flnat: "fl (real i) = real i" if "i < nat n" for i
  proof -
    have "int i < 2 ^ 53" using that assms(5) by linarith
    then have "i < 2 ^ 53" by (metis of_nat_less_iff of_nat_numeral of_nat_power)
    then show ?thesis by (rule fl_of_nat)
  qed
  have mnat: "m = real (nat n - 1)" using assms(4) by (simp add: m_def of_nat_diff)
  have flm: "fl m = m" unfolding mnat using assms(4) by (intro flnat) simp
  have s_eq: "fl (fl (b - a) / fl (of_int n - 1)) = s"
    using flm by (simp add: s_def q_def d_def m_def)
  have sbig: "1 / 2 ^ 44 < s" using assms(6) by (simp only: s_eq)
  have d0: "0 \<le> d" unfolding d_def using assms(2) by (intro fl_nonneg) simp
  have "d \<le> fl 90" unfolding d_def using assms(1,3) by (intro fl_mono) simp
  then have d90: "d \<le> 90" by (simp add: fl_numeral)
  have derr: "\<bar>d - (b - a)\<bar> \<le> 1 / 2 ^ 46"
    unfolding d_def using assms(1,2,3) by (intro fl_err_256) simp
  have q0: "0 \<le> q" unfolding q_def using d0 m1 by simp
  have qn: "pow2 (- 1022) \<le> \<bar>q\<bar>"
  proof (rule ccontr)
    assume "\<not> pow2 (- 1022) \<le> \<bar>q\<bar>"
    then have "q \<le> pow2 (- 1022)" using q0 by simp
    then have "s \<le> fl (pow2 (- 1022))" unfolding s_def by (rule fl_mono)
    then have "s \<le> pow2 (- 1022)" by (simp add: fl_pow2)
    moreover have "pow2 (- 1022) \<le> pow2 (- 44)" by (intro pow2_mono) simp
    moreover have "pow2 (- 44) = 1 / 2 ^ 44" by (simp add: pow2_def)
    ultimately show False using sbig by linarith
  qed
  have "\<bar>s - q\<bar> \<le> \<bar>q\<bar> / 2 ^ 53" unfolding s_def using qn by (rule fl_rel_err)
  then have serr: "\<bar>s - q\<bar> \<le> q / 2 ^ 53" using q0 by simp
  have mq: "m * q = d" using m1 by (simp add: q_def)
  have "\<bar>m * s - m * q\<bar> = m * \<bar>s - q\<bar>"
    using m1 by (simp add: abs_mult right_diff_distrib [symmetric])
  also have "\<dots> \<le> m * (q / 2 ^ 53)" using serr m1 by (intro mult_left_mono) simp_all
  also have "\<dots> = d / 2 ^ 53" using mq by simp
  finally have mserr0: "\<bar>m * s - d\<bar> \<le> d / 2 ^ 53" by (simp only: mq)
  have "d / 2 ^ 53 \<le> 90 / 2 ^ 53" using d90 by (intro divide_right_mono) simp_all
  also have "(90::real) / 2 ^ 53 \<le> 1 / 2 ^ 46" by simp
  finally have dsmall: "d / 2 ^ 53 \<le> 1 / 2 ^ 46" .
  have mserr: "\<bar>m * s - d\<bar> \<le> 1 / 2 ^ 46" using mserr0 dsmall by linarith
  have s0: "0 \<le> s" using sbig by simp
  have tiny: "(1::real) / 2 ^ 46 \<le> 1" by simp
  have ms91: "m * s \<le> 91" using mserr d90 tiny by linarith
  have isr: "0 \<le> real i * s" "real i * s \<le> 91" if "i < nat n" for i
  proof -
    show "0 \<le> real i * s" using s0 by simp
    have "real i \<le> m" unfolding mnat using that by simp
    then have "real i * s \<le> m * s" using s0 by (rule mult_right_mono)
    then show "real i * s \<le> 91" using ms91 by linarith
  qed
  have perr: "\<bar>p i - real i * s\<bar> \<le> 1 / 2 ^ 46" if "i < nat n" for i
    unfolding p_def using isr [OF that] by (intro fl_err_256) simp
  have prange: "0 \<le> p i" "p i \<le> 92" if "i < nat n" for i
  proof -
    show "0 \<le> p i" unfolding p_def using isr(1) [OF that] by (rule fl_nonneg)
    show "p i \<le> 92" using perr [OF that] isr [OF that] tiny by linarith
  qed
  have nth: "linspace_double a b n ! i = fl (a + p i)" if "i < nat n" for i
  proof -
    have "linspace_double a b n ! i
        = fl (a + fl (fl (real i) * fl (fl (b - a) / fl (of_int n - 1))))"
      using n1 that by (rule linspace_double_nth)
    then show ?thesis by (simp only: s_eq flnat [OF that] p_def)
  qed
  have xerr: "\<bar>linspace_double a b n ! i - (a + p i)\<bar> \<le> 1 / 2 ^ 46" if "i < nat n" for i
  proof -
    have "\<bar>a + p i\<bar> < 256" using assms(1,2,3) prange [OF that] by simp
    then show ?thesis unfolding nth [OF that] by (rule fl_err_256)
  qed
  have len: "length (linspace_double a b n) = nat n" using n1 by (rule linspace_double_length)
  show "sorted_wrt (<) (linspace_double a b n)"
    unfolding sorted_wrt_iff_nth_less
  proof (intro allI impI)
    fix i j assume ij: "i < j" "j < length (linspace_double a b n)"
    then have j: "j < nat n" and i: "i < nat n" using len by simp_all
    have "real i + 1 \<le> real j" using ij(1) by simp
    then have "(real i + 1) * s \<le> real j * s" using s0 by (rule mult_right_mono)
    then have gap: "real i * s + s \<le> real j * s" by (simp add: algebra_simps)
    have e: "(1::real) / 2 ^ 44 = 4 * (1 / 2 ^ 46)" by simp
    define t where "t = (1::real) / 2 ^ 46"
    have "4 * t < s" using sbig unfolding e t_def .
    moreover have "\<bar>linspace_double a b n ! i - (a + p i)\<bar> \<le> t"
      "\<bar>linspace_double a b n ! j - (a + p j)\<bar> \<le> t"
      "\<bar>p i - real i * s\<bar> \<le> t" "\<bar>p j - real j * s\<bar> \<le> t"
      unfolding t_def by (rule xerr [OF i] xerr [OF j] perr [OF i] perr [OF j])+
    ultimately show "linspace_double a b n ! i < linspace_double a b n ! j"
      using gap by linarith
  qed
  have pos: "0 < nat n" and k: "nat n - 1 < nat n" using assms(4) by simp_all
  have "linspace_double a b n \<noteq> []" using len pos by auto
  then have l: "last (linspace_double a b n) = linspace_double a b n ! (nat n - 1)"
    using len by (simp add: last_conv_nth)
  define t where "t = (1::real) / 2 ^ 46"
  have e: "(1::real) / 2 ^ 44 = 4 * t" by (simp add: t_def)
  have "\<bar>linspace_double a b n ! (nat n - 1) - (a + p (nat n - 1))\<bar> \<le> t"
    unfolding t_def by (rule xerr [OF k])
  moreover have "\<bar>p (nat n - 1) - m * s\<bar> \<le> t"
    unfolding t_def mnat by (rule perr [OF k])
  moreover have "\<bar>m * s - d\<bar> \<le> t" unfolding t_def by (rule mserr)
  moreover have "\<bar>d - (b - a)\<bar> \<le> t" unfolding t_def by (rule derr)
  ultimately show "\<bar>last (linspace_double a b n) - b\<bar> \<le> 1 / 2 ^ 44"
    unfolding l e by linarith
qed

lemma linspace_exact:
  assumes "theta_low_deg < theta_high_deg" and "4 \<le> sample_count"
  shows "length (linspace theta_low_deg theta_high_deg sample_count) = nat sample_count
    \<and> (\<forall>i < nat sample_count.
          linspace theta_low_deg theta_high_deg sample_count ! i
            = theta_low_deg + real i * (theta_high_deg - theta_low_deg) / (of_int sample_count - 1)
          \<and> map radians (linspace theta_low_deg theta_high_deg sample_count) ! i
            = linspace theta_low_deg theta_high_deg sample_count ! i * pi / 180
          \<and> theta_rad_glm (linspace theta_low_deg theta_high_deg sample_count) ! i
            = linspace theta_low_deg theta_high_deg sample_count ! i * pi / 180)
    \<and> sorted_wrt (<) (linspace theta_low_deg theta_high_deg sample_count)
    \<and> hd (linspace theta_low_deg theta_high_deg sample_count) = theta_low_deg
    \<and> last (linspace theta_low_deg theta_high_deg sample_count) = theta_high_deg"
proof -
  let ?xs = "linspace theta_low_deg theta_high_deg sample_count"
  let ?n = "nat sample_count"
  have n1: "sample_count \<noteq> 1" and npos: "0 < ?n" using assms by auto
  have len: "length ?xs = ?n" using n1 by (rule linspace_length)
  have nth: "?xs ! i = theta_low_deg + real i * (theta_high_deg - theta_low_deg) / (of_int sample_count - 1)"
    if "i < ?n" for i using n1 that by (rule linspace_nth)
  have sorted: "sorted_wrt (<) ?xs"
    unfolding sorted_wrt_iff_nth_less
  proof (intro allI impI)
    fix i j assume "i < j" "j < length ?xs"
    then have "i < ?n" "j < ?n" using len by auto
    moreover have "real i * (theta_high_deg - theta_low_deg) / (of_int sample_count - 1)
        < real j * (theta_high_deg - theta_low_deg) / (of_int sample_count - 1)"
      using \<open>i < j\<close> assms by (intro divide_strict_right_mono mult_strict_right_mono) auto
    ultimately show "?xs ! i < ?xs ! j"
      by (simp add: nth)
  qed
  have ne: "?xs \<noteq> []" using len npos by auto
  have h: "hd ?xs = theta_low_deg"
    using npos nth [of 0] ne by (simp add: hd_conv_nth)
  have "last ?xs = ?xs ! (?n - 1)" using ne len by (simp add: last_conv_nth)
  also have "\<dots> = theta_low_deg + real (?n - 1) * (theta_high_deg - theta_low_deg) / (of_int sample_count - 1)"
    using npos by (intro nth) simp
  also have "real (?n - 1) = of_int sample_count - 1" using assms by (simp add: of_nat_diff)
  also have "theta_low_deg + (of_int sample_count - 1) * (theta_high_deg - theta_low_deg) / (of_int sample_count - 1) = theta_high_deg"
    using assms by simp
  finally have l: "last ?xs = theta_high_deg" .
  show ?thesis
    using len nth sorted h l by (simp add: radians_def theta_rad_glm_def)
qed

text \<open>
  Claim C5 as stated fails in double arithmetic. For \<open>low = 5\<close>, \<open>high = 60\<close> and
  \<open>sample_count = 26\<close> the step \<open>55 / 25\<close> rounds up, \<open>25 * step\<close> rounds to
  \<open>55 + 2 ^ - 47\<close>, and the last angle is \<open>60 + 2 ^ - 47\<close>, not \<open>60\<close>. For \<open>low = 1\<close>,
  \<open>high = 1 + 2 ^ - 52\<close> (the next double) and \<open>sample_count = 4\<close> the first two angles
  are both \<open>1\<close>, so the grid is not strictly increasing. The gpt5 validator accepts
  both configurations.
\<close>

theorem linspace_grid_counterexample:
  "validate_inputs_gpt5 2000 5 60 26 = Inr ()
   \<and> validate_inputs_gpt5 2000 1 (1 + 1 / 2 ^ 52) 4 = Inr ()
   \<and> (5::real) < 60 \<and> (4::int) \<le> 26
   \<and> last (linspace_double 5 60 26) = 60 + 1 / 2 ^ 47
   \<and> last (linspace_double 5 60 26) \<noteq> 60
   \<and> (1::real) < 1 + 1 / 2 ^ 52 \<and> (4::int) \<le> 4
   \<and> linspace_double 1 (1 + 1 / 2 ^ 52) 4 ! 0 = 1
   \<and> linspace_double 1 (1 + 1 / 2 ^ 52) 4 ! 1 = 1"
  using linspace_double_last_26 linspace_double_tie
  by (simp add: validate_inputs_gpt5_def)

text \<open>
  Claim C5, as the code has it. For \<open>theta_low_deg < theta_high_deg\<close>, \<open>theta_low_deg\<close> a
  double, and \<open>sample_count \<ge> 4\<close>, the grid computed in doubles has \<open>sample_count\<close>
  elements, element \<open>i\<close> is \<open>low + i * step\<close> with \<open>step = (high - low) / (sample_count - 1)\<close>,
  each operation rounded, the grid is non-decreasing and starts at \<open>low\<close>, and the
  conversion to radians multiplies each element by \<open>pi / 180\<close>, rounded. When moreover
  \<open>0 \<le> low\<close>, \<open>high \<le> 90\<close>, \<open>sample_count \<le> 2 ^ 53\<close> and the computed step is above
  \<open>2 ^ - 44\<close>, the grid is strictly increasing and its last element is within
  \<open>2 ^ - 44\<close> of \<open>high\<close>; for the scripts' own configuration the grid is exactly
  \<open>5, 10, ..., 60\<close>. In exact arithmetic
  the grid has \<open>sample_count\<close> elements, element \<open>i\<close> is
  \<open>low + i * (high - low) / (sample_count - 1)\<close>, the grid is strictly increasing, starts
  at \<open>low\<close> and ends at \<open>high\<close>, and the conversion multiplies by \<open>pi / 180\<close>.
\<close>

theorem linspace_grid:
  assumes "theta_low_deg < theta_high_deg" and "4 \<le> sample_count"
    and "fl theta_low_deg = theta_low_deg"
  shows "length (linspace_double theta_low_deg theta_high_deg sample_count) = nat sample_count
    \<and> (\<forall>i < nat sample_count.
          linspace_double theta_low_deg theta_high_deg sample_count ! i
            = fl (theta_low_deg
                  + fl (fl (real i)
                        * fl (fl (theta_high_deg - theta_low_deg) / fl (of_int sample_count - 1))))
          \<and> map radians_double (linspace_double theta_low_deg theta_high_deg sample_count) ! i
            = fl (linspace_double theta_low_deg theta_high_deg sample_count ! i * fl (fl pi / 180))
          \<and> theta_rad_glm_double (linspace_double theta_low_deg theta_high_deg sample_count) ! i
            = fl (fl (linspace_double theta_low_deg theta_high_deg sample_count ! i * fl pi) / 180))
    \<and> sorted (linspace_double theta_low_deg theta_high_deg sample_count)
    \<and> hd (linspace_double theta_low_deg theta_high_deg sample_count) = theta_low_deg
    \<and> last (linspace_double theta_low_deg theta_high_deg sample_count)
          = fl (theta_low_deg
                + fl (fl (of_int sample_count - 1)
                      * fl (fl (theta_high_deg - theta_low_deg) / fl (of_int sample_count - 1))))
    \<and> (0 \<le> theta_low_deg \<and> theta_high_deg \<le> 90 \<and> sample_count \<le> 2 ^ 53
         \<and> 1 / 2 ^ 44 < fl (fl (theta_high_deg - theta_low_deg) / fl (of_int sample_count - 1))
       \<longrightarrow> sorted_wrt (<) (linspace_double theta_low_deg theta_high_deg sample_count)
           \<and> \<bar>last (linspace_double theta_low_deg theta_high_deg sample_count) - theta_high_deg\<bar>
                 \<le> 1 / 2 ^ 44)
    \<and> linspace_double 5 60 12 = [5, 10, 15, 20, 25, 30, 35, 40, 45, 50, 55, 60]
    \<and> length (linspace theta_low_deg theta_high_deg sample_count) = nat sample_count
    \<and> (\<forall>i < nat sample_count.
          linspace theta_low_deg theta_high_deg sample_count ! i
            = theta_low_deg + real i * (theta_high_deg - theta_low_deg) / (of_int sample_count - 1)
          \<and> map radians (linspace theta_low_deg theta_high_deg sample_count) ! i
            = linspace theta_low_deg theta_high_deg sample_count ! i * pi / 180
          \<and> theta_rad_glm (linspace theta_low_deg theta_high_deg sample_count) ! i
            = linspace theta_low_deg theta_high_deg sample_count ! i * pi / 180)
    \<and> sorted_wrt (<) (linspace theta_low_deg theta_high_deg sample_count)
    \<and> hd (linspace theta_low_deg theta_high_deg sample_count) = theta_low_deg
    \<and> last (linspace theta_low_deg theta_high_deg sample_count) = theta_high_deg"
proof -
  let ?xs = "linspace_double theta_low_deg theta_high_deg sample_count"
  have n1: "sample_count \<noteq> 1" and n2: "1 < sample_count" using assms(2) by simp_all
  have len: "length ?xs = nat sample_count" using n1 by (rule linspace_double_length)
  have nth: "\<forall>i < nat sample_count.
      ?xs ! i = fl (theta_low_deg
                  + fl (fl (real i)
                        * fl (fl (theta_high_deg - theta_low_deg) / fl (of_int sample_count - 1))))
      \<and> map radians_double ?xs ! i = fl (?xs ! i * fl (fl pi / 180))
      \<and> theta_rad_glm_double ?xs ! i = fl (fl (?xs ! i * fl pi) / 180)"
    using n1 len by (simp add: linspace_double_nth radians_double_def theta_rad_glm_double_def)
  have srt: "sorted ?xs" using assms(1) n2 by (intro linspace_double_sorted) simp_all
  have h: "hd ?xs = theta_low_deg" using n2 assms(3) by (rule linspace_double_hd)
  have l: "last ?xs = fl (theta_low_deg
                + fl (fl (of_int sample_count - 1)
                      * fl (fl (theta_high_deg - theta_low_deg) / fl (of_int sample_count - 1))))"
    using n2 by (rule linspace_double_last)
  have r: "0 \<le> theta_low_deg \<and> theta_high_deg \<le> 90 \<and> sample_count \<le> 2 ^ 53
         \<and> 1 / 2 ^ 44 < fl (fl (theta_high_deg - theta_low_deg) / fl (of_int sample_count - 1))
       \<longrightarrow> sorted_wrt (<) ?xs \<and> \<bar>last ?xs - theta_high_deg\<bar> \<le> 1 / 2 ^ 44"
    using linspace_double_resolved [of theta_low_deg theta_high_deg sample_count] assms(1) n2
    by blast
  from len nth srt h l r linspace_double_fixed linspace_exact [OF assms(1,2)]
  show ?thesis by (intro conjI) blast+
qed

theorem linspace_grid_witness:
  "(5::real) < 60 \<and> (4::int) \<le> 12 \<and> fl 5 = 5
   \<and> length (linspace_double 5 60 12) = 12
   \<and> sorted (linspace_double 5 60 12)
   \<and> hd (linspace_double 5 60 12) = 5
   \<and> linspace_double 5 60 12 ! 1 = 10
   \<and> last (linspace_double 5 60 12) = 60
   \<and> (1::real) / 2 ^ 44 < fl (fl (60 - 5) / fl (of_int 12 - 1))
   \<and> sorted_wrt (<) (linspace_double 5 60 12)
   \<and> length (linspace 5 60 12) = 12
   \<and> linspace 5 60 12 ! 1 = 10
   \<and> hd (linspace 5 60 12) = 5 \<and> last (linspace 5 60 12) = 60"
  using linspace_grid [of 5 60 12] by (simp add: fl_numeral)


section \<open>Numeric bounds on \<open>pi\<close> and the small-angle period\<close>

lemma cos_sum14:
  fixes x :: real
  shows "(\<Sum>m<14. cos_coeff m * x ^ m)
      = 1 - x^2/2 + x^4/24 - x^6/720 + x^8/40320 - x^10/3628800 + x^12/479001600"
proof -
  have "(\<Sum>m<14. cos_coeff m * x ^ m) = (\<Sum>m\<leftarrow>[0..<14]. cos_coeff m * x ^ m)"
    by (simp add: interv_sum_list_conv_sum_set_nat atLeast0LessThan)
  also have "[0..<14] = [0,1,2,3,4,5,6,7,8,9,10,11,12,13::nat]"
    by code_simp
  also have "(\<Sum>m\<leftarrow>[0,1,2,3,4,5,6,7,8,9,10,11,12,13::nat]. cos_coeff m * x ^ m)
      = 1 - x^2/2 + x^4/24 - x^6/720 + x^8/40320 - x^10/3628800 + x^12/479001600"
    by (simp add: cos_coeff_def fact_numeral)
  finally show ?thesis .
qed

lemma cos_taylor14:
  fixes x :: real
  assumes "0 < x"
  shows "\<bar>cos x - (1 - x^2/2 + x^4/24 - x^6/720 + x^8/40320 - x^10/3628800 + x^12/479001600)\<bar>
           \<le> x^14 / 87178291200"
proof -
  obtain t where t: "cos x = (\<Sum>m<14. cos_coeff m * x ^ m) + (cos (t + 1/2 * real (14::nat) * pi) / fact 14) * x ^ 14"
    using Maclaurin_cos_expansion2 [of x 14] assms by auto
  have f: "fact 14 = (87178291200::real)"
    by (simp add: fact_numeral)
  have "\<bar>cos (t + 1/2 * real (14::nat) * pi) / fact 14 * x ^ 14\<bar>
      = \<bar>cos (t + 1/2 * real (14::nat) * pi)\<bar> * (x ^ 14 / 87178291200)"
    using assms by (simp add: f abs_mult)
  also have "\<dots> \<le> 1 * (x ^ 14 / 87178291200)"
    using assms by (intro mult_right_mono abs_cos_le_one) simp
  finally show ?thesis unfolding t cos_sum14 by simp
qed

lemma pi_lower: "3.141592 < pi"
proof -
  let ?x = "1.570796 :: real"
  define P where "P = 1 - ?x^2/2 + ?x^4/24 - ?x^6/720 + ?x^8/40320 - ?x^10/3628800 + ?x^12/479001600"
  define R where "R = ?x^14 / 87178291200"
  have "0 < P - R"
    unfolding P_def R_def by (simp add: power_divide)
  moreover have "\<bar>cos ?x - P\<bar> \<le> R"
    unfolding P_def R_def by (rule cos_taylor14) simp
  ultimately have c: "0 < cos ?x" by linarith
  have "?x < pi / 2"
  proof (rule ccontr)
    assume "\<not> ?x < pi / 2"
    then have "pi / 2 \<le> ?x" by simp
    moreover have "?x \<le> pi" using pi_ge_two by simp
    ultimately have "cos ?x \<le> cos (pi / 2)"
      by (intro cos_monotone_0_pi_le) auto
    then show False using c by simp
  qed
  then show ?thesis by simp
qed

lemma pi_upper: "pi < 3.1415928"
proof -
  let ?x = "1.5707964 :: real"
  define P where "P = 1 - ?x^2/2 + ?x^4/24 - ?x^6/720 + ?x^8/40320 - ?x^10/3628800 + ?x^12/479001600"
  define R where "R = ?x^14 / 87178291200"
  have "P + R < 0"
    unfolding P_def R_def by (simp add: power_divide)
  moreover have "\<bar>cos ?x - P\<bar> \<le> R"
    unfolding P_def R_def by (rule cos_taylor14) simp
  ultimately have c: "cos ?x < 0" by linarith
  have "pi / 2 < ?x"
  proof (rule ccontr)
    assume "\<not> pi / 2 < ?x"
    then have "?x \<le> pi / 2" by simp
    then have "0 \<le> cos ?x" by (intro cos_ge_zero) auto
    then show False using c by simp
  qed
  then show ?thesis by simp
qed

lemma sqrt_g_bounds:
  "0.31932995 < sqrt (1 / 9.80665)" "sqrt (1 / 9.80665) < 0.31932996"
proof -
  show "0.31932995 < sqrt (1 / 9.80665)"
    by (rule real_less_rsqrt) (simp add: power2_eq_square)
  show "sqrt (1 / 9.80665) < 0.31932996"
    by (rule real_less_lsqrt) (simp_all add: power2_eq_square)
qed

lemma T0_anchor: "\<bar>2 * pi * sqrt (1 / 9.80665) - 2.0064093\<bar> < 1 / 10 ^ 6"
proof -
  define s where "s = sqrt (1 / 9.80665 :: real)"
  define T where "T = 2 * pi * s"
  have s: "0.31932995 < s" "s < 0.31932996"
    unfolding s_def by (rule sqrt_g_bounds)+
  have lo: "3.141592 * 0.31932995 < pi * s"
    by (rule mult_strict_mono) (use pi_lower s in simp_all)
  have hi: "pi * s < 3.1415928 * 0.31932996"
    by (rule mult_strict_mono) (use pi_upper s in simp_all)
  have "(2.0064093 - 1 / 10 ^ 6 :: real) < 2 * (3.141592 * 0.31932995)"
    "(2 * (3.1415928 * 0.31932996) :: real) < 2.0064093 + 1 / 10 ^ 6"
    by simp_all
  moreover have "T = 2 * (pi * s)" by (simp add: T_def)
  ultimately have "2.0064093 - 1 / 10 ^ 6 < T" "T < 2.0064093 + 1 / 10 ^ 6"
    using lo hi by linarith+
  then have "\<bar>T - 2.0064093\<bar> < 1 / 10 ^ 6"
    by linarith
  then show ?thesis unfolding T_def s_def .
qed


lemma T0_const_Inr: "0 < L \<Longrightarrow> 0 < g \<Longrightarrow> T0_const L g = Inr (T_small_spec L g)"
  by (simp add: T0_const_def T_small_spec_def)

text \<open>
  Claim C7. For positive \<open>L\<close> and \<open>g\<close> the small-angle period is
  \<open>2 * pi * sqrt (L / g)\<close>; the list \<open>T0\<close> holds that one value at every angle sample;
  for \<open>L = 1.0\<close> and \<open>g = 9.80665\<close> it is within \<open>1e-6\<close> of \<open>2.0064093\<close>
  (over the reals).
\<close>

theorem small_angle_period:
  assumes "0 < L" and "0 < g"
  shows "T0_const L g = Inr (T_small_spec L g)
    \<and> T0_list (T_small_spec L g) theta_rad = replicate (length theta_rad) (T_small_spec L g)
    \<and> (\<forall>i < length theta_rad. T0_list (T_small_spec L g) theta_rad ! i = 2 * pi * sqrt (L / g))
    \<and> (\<exists>t. T0_const 1 9.80665 = Inr t \<and> \<bar>t - 2.0064093\<bar> < 1 / 10 ^ 6)"
proof -
  have a: "T0_const L g = Inr (T_small_spec L g)"
    using assms by (rule T0_const_Inr)
  have b: "T0_list (T_small_spec L g) theta_rad = replicate (length theta_rad) (T_small_spec L g)"
    by (simp add: T0_list_def map_replicate_const)
  have c: "\<forall>i < length theta_rad. T0_list (T_small_spec L g) theta_rad ! i = 2 * pi * sqrt (L / g)"
    by (simp add: T0_list_def T_small_spec_def)
  have "T0_const 1 9.80665 = Inr (T_small_spec 1 9.80665)"
    by (rule T0_const_Inr) simp_all
  moreover have "\<bar>T_small_spec 1 9.80665 - 2.0064093\<bar> < 1 / 10 ^ 6"
    unfolding T_small_spec_def by (rule T0_anchor)
  ultimately have d: "\<exists>t. T0_const 1 9.80665 = Inr t \<and> \<bar>t - 2.0064093\<bar> < 1 / 10 ^ 6"
    by blast
  show ?thesis using a b c d by blast
qed

theorem small_angle_period_witness:
  "(0::real) < 1 \<and> (0::real) < 9.80665
   \<and> T0_const 1 9.80665 = Inr (T_small_spec 1 9.80665)
   \<and> T0_list (T_small_spec 1 9.80665) [1, 2, 3]
       = [T_small_spec 1 9.80665, T_small_spec 1 9.80665, T_small_spec 1 9.80665]"
  using small_angle_period [of 1 "9.80665" "[1, 2, 3]"] by simp

section \<open>Series-corrected period\<close>

text \<open>
  Claim C8. The series-corrected period of every angle of the list is
  \<open>T_small * (1 + \<theta>\<^sup>2 / 16 + 11 * \<theta>\<^sup>4 / 3072)\<close>: one closed-form expression per angle, in
  a total function, for the gpt5 list comprehension and for kimi's \<open>compute_T_series\<close>.
\<close>

theorem series_period:
  assumes "0 < L" and "0 < g"
  shows "T0_const L g = Inr (T_small_spec L g)
    \<and> length (T_series_list (T_small_spec L g) theta_rad) = length theta_rad
    \<and> (\<forall>i < length theta_rad.
          T_series_list (T_small_spec L g) theta_rad ! i
            = T_series_spec (T_small_spec L g) (theta_rad ! i))
    \<and> compute_T_series (T_small_spec L g) \<theta> = T_series_spec (T_small_spec L g) \<theta>"
  using assms
  by (simp add: T0_const_Inr T_series_list_def T_series_spec_def compute_T_series_def)

theorem series_period_witness:
  "(0::real) < 1 \<and> (0::real) < 9.80665
   \<and> T_series_list (T_small_spec 1 9.80665) [1 / 2, 1] ! 1
       = T_small_spec 1 9.80665 * (1 + 1 / 16 + 11 / 3072)
   \<and> compute_T_series (T_small_spec 1 9.80665) 1
       = T_small_spec 1 9.80665 * (1 + 1 / 16 + 11 / 3072)"
  using series_period [of 1 "9.80665" "[1 / 2, 1]" 1] by (simp add: T_series_spec_def)

section \<open>The clamped integrand\<close>

lemma compute_true_period_f_Inr:
  assumes "0 < epsilon"
  shows "compute_true_period_f epsilon (cos theta0) theta = Inr (clamped_integrand epsilon theta0 theta)"
proof -
  have "0 < 2 * max (cos theta - cos theta0) epsilon" using assms by simp
  then show ?thesis
    by (simp add: compute_true_period_f_def clamped_integrand_def Let_def)
qed

lemma compute_t_num_f_Inr:
  assumes "0 < epsilon"
  shows "compute_t_num_f epsilon theta0 theta = Inr (clamped_integrand epsilon theta0 theta)"
proof -
  have "0 < 2 * max (cos theta - cos theta0) epsilon" using assms by simp
  then show ?thesis
    by (simp add: compute_t_num_f_def clamped_integrand_def Let_def)
qed

lemma clamped_integrand_pos: "0 < epsilon \<Longrightarrow> 0 < clamped_integrand epsilon theta0 theta"
  by (simp add: clamped_integrand_def)

lemma clamped_integrand_le:
  assumes "0 < epsilon"
  shows "clamped_integrand epsilon theta0 theta \<le> 1 / sqrt (2 * epsilon)"
proof -
  have "sqrt (2 * epsilon) \<le> sqrt (2 * max (cos theta - cos theta0) epsilon)"
    by (rule real_sqrt_le_mono) simp
  moreover have "0 < sqrt (2 * epsilon)" using assms by simp
  ultimately show ?thesis
    unfolding clamped_integrand_def by (intro divide_left_mono mult_pos_pos) auto
qed

text \<open>
  Claim C10. For every \<open>epsilon > 0\<close> and all angles \<open>theta0\<close>, \<open>theta\<close>, the argument of
  the square root is at least \<open>2 * epsilon > 0\<close>, and the integrand of the gpt5 and of
  the gemini script returns a value (no exception, no non-finite result), which is
  positive and at most \<open>1 / sqrt (2 * epsilon)\<close>.
\<close>

theorem integrand_well_defined:
  assumes "0 < epsilon"
  shows "0 < 2 * epsilon
    \<and> 2 * epsilon \<le> 2 * max (cos theta - cos theta0) epsilon
    \<and> (\<exists>y. compute_true_period_f epsilon (cos theta0) theta = Inr y
           \<and> compute_t_num_f epsilon theta0 theta = Inr y
           \<and> y = 1 / sqrt (2 * max (cos theta - cos theta0) epsilon)
           \<and> 0 < y \<and> y \<le> 1 / sqrt (2 * epsilon))"
  using assms compute_true_period_f_Inr [OF assms] compute_t_num_f_Inr [OF assms]
    clamped_integrand_pos [OF assms] clamped_integrand_le [OF assms]
  by (simp add: clamped_integrand_def)

theorem integrand_well_defined_witness:
  "(0::real) < 1 / 2
   \<and> compute_true_period_f (1 / 2) (cos 0) 0 = Inr 1
   \<and> compute_t_num_f (1 / 2) 0 0 = Inr 1"
  using integrand_well_defined [of "1 / 2" 0 0] by simp


section \<open>Strategy A: the loop is the composite Simpson sum\<close>

lemma simpson_loop_pure:
  assumes "\<And>x. f x = Inr (F x)"
  shows "simpson_loop f a h is s
     = Inr (s + (\<Sum>i\<leftarrow>is. (if i mod 2 = 1 then 4 else 2) * F (a + real i * h)))"
  by (induction "is" arbitrary: s) (simp_all add: assms add.assoc)

lemma weighted_sum_split:
  fixes G :: "nat \<Rightarrow> real"
  shows "(\<Sum>i\<leftarrow>is. (if i mod 2 = 1 then 4 else 2) * G i)
     = 4 * sum_list (map G (filter odd is)) + 2 * sum_list (map G (filter even is))"
  by (induction "is") (auto simp: odd_iff_mod_2_eq_one algebra_simps)

lemma simpson_integral_pure:
  assumes "\<And>x. f x = Inr (F x)" and "0 < n"
  shows "simpson_integral f 0 theta0 n = Inr (simpson_spec F theta0 (nat n))"
proof -
  define h where "h = theta0 / real_of_int n"
  have n: "real_of_int n \<noteq> 0" and hn: "theta0 / real (nat n) = h"
    using assms(2) by (auto simp: h_def)
  have loop: "simpson_loop f 0 h [1..<nat n] (F 0 + F theta0)
      = Inr (F 0 + F theta0
             + (4 * sum_list (map (\<lambda>i. F (real i * h)) (filter odd [1..<nat n]))
                + 2 * sum_list (map (\<lambda>i. F (real i * h)) (filter even [1..<nat n]))))"
    unfolding simpson_loop_pure [where F = F, OF assms(1)]
    using weighted_sum_split [of "\<lambda>i. F (real i * h)" "[1..<nat n]"] by simp
  have "simpson_integral f 0 theta0 n
      = Inr ((F 0 + F theta0
             + (4 * sum_list (map (\<lambda>i. F (real i * h)) (filter odd [1..<nat n]))
                + 2 * sum_list (map (\<lambda>i. F (real i * h)) (filter even [1..<nat n])))) * h / 3)"
    using n loop by (simp add: simpson_integral_def assms(1) h_def)
  also have "\<dots> = Inr (simpson_spec F theta0 (nat n))"
    by (simp add: simpson_spec_def Let_def hn)
  finally show ?thesis .
qed

lemma compute_true_period_eq:
  assumes "0 < epsilon" and "0 < integral_steps" and "0 < L" and "0 < g"
  shows "compute_true_period L g integral_steps epsilon theta0
     = Inr (4 * sqrt (L / g)
            * simpson_spec (clamped_integrand epsilon theta0) theta0 (nat integral_steps))"
proof -
  have "simpson_integral (compute_true_period_f epsilon (cos theta0)) 0 theta0 integral_steps
      = Inr (simpson_spec (clamped_integrand epsilon theta0) theta0 (nat integral_steps))"
    by (rule simpson_integral_pure) (simp_all add: compute_true_period_f_Inr assms)
  then show ?thesis
    using assms by (simp add: compute_true_period_def Let_def)
qed


lemma compute_integral_simpson_loop_pure:
  assumes "\<And>i. i \<in> set is \<Longrightarrow> int i \<noteq> steps \<Longrightarrow> c < cos (real i * h)"
  shows "compute_integral_simpson_loop h c steps is acc
     = Inr (acc + (\<Sum>i\<leftarrow>is. (if i = 0 \<or> int i = steps then 1 else if i mod 2 = 1 then 4 else 2)
                       * (if int i = steps then 0 else 1 / sqrt (2 * (cos (real i * h) - c)))))"
  using assms
proof (induction "is" arbitrary: acc)
  case Nil
  show ?case by simp
next
  case (Cons i "is")
  have rest: "\<And>acc. compute_integral_simpson_loop h c steps is acc
     = Inr (acc + (\<Sum>i\<leftarrow>is. (if i = 0 \<or> int i = steps then 1 else if i mod 2 = 1 then 4 else 2)
                       * (if int i = steps then 0 else 1 / sqrt (2 * (cos (real i * h) - c)))))"
    by (rule Cons.IH) (simp add: Cons.prems)
  show ?case
  proof (cases "int i = steps")
    case True
    then show ?thesis by (simp add: Let_def rest)
  next
    case False
    then have "c < cos (real i * h)" using Cons.prems by simp
    then have "0 < 2 * (cos (real i * h) - c)" by simp
    then have "np_sqrt (2 * (cos (real i * h) - c)) = Inr (sqrt (2 * (cos (real i * h) - c)))"
      and "sqrt (2 * (cos (real i * h) - c)) \<noteq> 0"
      by simp_all
    then show ?thesis using False by (simp add: Let_def rest add.assoc)
  qed
qed


lemma compute_integral_simpson_eq:
  assumes "0 < steps" and "0 < theta0" and "theta0 \<le> pi"
  shows "compute_integral_simpson theta0 steps
     = Inr (simpson_spec (glm_integrand theta0) theta0 (nat steps))"
proof -
  define N where "N = nat steps"
  define h where "h = theta0 / real_of_int steps"
  define W :: "nat \<Rightarrow> real" where
    "W = (\<lambda>i. if i = 0 \<or> int i = steps then 1 else if i mod 2 = 1 then 4 else 2)"
  define V where
    "V = (\<lambda>i::nat. if int i = steps then 0 else 1 / sqrt (2 * (cos (real i * h) - cos theta0)))"
  have N: "0 < N" "int N = steps" "real N = real_of_int steps"
    using assms(1) by (auto simp: N_def)
  have hpos: "0 < h" using assms by (simp add: h_def)
  have hN: "real N * h = theta0" using N assms(1) by (simp add: h_def)
  have node: "real i * h < theta0" if "i < N" for i
  proof -
    have "real i * h < real N * h" using that hpos by simp
    then show ?thesis by (simp add: hN)
  qed
  have node_cos: "cos theta0 < cos (real i * h)" if "i < N" for i
    using node [OF that] hpos assms(3) by (intro cos_monotone_0_pi) auto
  have loop: "compute_integral_simpson_loop h (cos theta0) steps [0..<Suc N] 0
      = Inr (0 + (\<Sum>i\<leftarrow>[0..<Suc N]. W i * V i))"
    unfolding W_def V_def
  proof (rule compute_integral_simpson_loop_pure)
    fix i assume "i \<in> set [0..<Suc N]" "int i \<noteq> steps"
    then have "i < N" using N(2) by auto
    then show "cos theta0 < cos (real i * h)" by (rule node_cos)
  qed
  have split: "[0..<Suc N] = 0 # [1..<N] @ [N]"
    using N(1) by (simp add: upt_conv_Cons)
  have first: "W 0 * V 0 = glm_integrand theta0 0"
    using assms N by (auto simp: W_def V_def glm_integrand_def)
  have last: "W N * V N = 0"
    using N by (simp add: V_def)
  have mid: "(\<Sum>i\<leftarrow>[1..<N]. W i * V i)
      = (\<Sum>i\<leftarrow>[1..<N]. (if i mod 2 = 1 then 4 else 2) * glm_integrand theta0 (real i * h))"
  proof (rule arg_cong [where f = sum_list], rule map_cong [OF refl])
    fix i assume "i \<in> set [1..<N]"
    then have i: "0 < i" "i < N" by auto
    then have "int i \<noteq> steps" "real i * h \<noteq> theta0"
      using N(2) node [of i] by auto
    then show "W i * V i = (if i mod 2 = 1 then 4 else 2) * glm_integrand theta0 (real i * h)"
      using i by (simp add: W_def V_def glm_integrand_def)
  qed
  have total: "(\<Sum>i\<leftarrow>[0..<Suc N]. W i * V i)
      = glm_integrand theta0 0 + glm_integrand theta0 theta0
        + 4 * sum_list (map (\<lambda>i. glm_integrand theta0 (real i * h)) (filter odd [1..<N]))
        + 2 * sum_list (map (\<lambda>i. glm_integrand theta0 (real i * h)) (filter even [1..<N]))"
  proof -
    have e: "glm_integrand theta0 theta0 = 0" by (simp add: glm_integrand_def)
    have "(\<Sum>i\<leftarrow>[0..<Suc N]. W i * V i)
        = glm_integrand theta0 0 + (\<Sum>i\<leftarrow>[1..<N]. W i * V i)"
      unfolding split by (simp add: first last)
    then show ?thesis
      unfolding mid weighted_sum_split e by simp
  qed
  have "nat (steps + 1) = Suc N" using assms(1) by (simp add: N_def)
  then have "compute_integral_simpson theta0 steps
      = Inr ((\<Sum>i\<leftarrow>[0..<Suc N]. W i * V i) * (h / 3))"
    using assms(1) loop by (simp add: compute_integral_simpson_def h_def)
  also have "\<dots> = Inr (simpson_spec (glm_integrand theta0) theta0 N)"
    unfolding total by (simp add: simpson_spec_def Let_def N(3) h_def)
  finally show ?thesis by (simp add: N_def)
qed

lemma T_num_glm_eq:
  assumes "0 < steps" and "0 < theta0" and "theta0 \<le> pi" and "0 < L" and "0 < g"
  shows "T_num_glm L g steps theta0
     = Inr (4 * sqrt (L / g) * simpson_spec (glm_integrand theta0) theta0 (nat steps))"
  using assms by (simp add: T_num_glm_def compute_integral_simpson_eq)


lemma simpson_spec_zero: "simpson_spec F 0 n = 0"
  by (simp add: simpson_spec_def)

lemma simpson_spec_two: "simpson_spec F theta0 2 = theta0 / 2 / 3 * (F 0 + F theta0 + 4 * F (theta0 / 2))"
proof -
  have "[1..<2] = [1::nat]" by code_simp
  then show ?thesis by (simp add: simpson_spec_def)
qed

lemma sqrt3_gt: "1.7 < sqrt 3"
  by (rule real_less_rsqrt) (simp add: power2_eq_square)

text \<open>
  Claim C1 as stated fails on the glm script: with \<open>steps = 2\<close> and \<open>theta0 = pi / 3\<close>
  its result is not \<open>4 * sqrt (L / g)\<close> times the Simpson sum of the clamped integrand,
  because the upper endpoint contributes \<open>0\<close> instead of \<open>1 / sqrt (2 * epsilon)\<close>.
\<close>

theorem strategy_A_counterexample:
  "T_num_glm 1 9.80665 2 (pi / 3)
     \<noteq> Inr (4 * sqrt (1 / 9.80665)
              * simpson_spec (clamped_integrand (1 / 10 ^ 10) (pi / 3)) (pi / 3) 2)"
proof -
  define e :: real where "e = 1 / 10 ^ 10"
  define th :: real where "th = pi / 3"
  have e: "0 < e" "e \<le> 1 / 4" by (simp_all add: e_def)
  have c0: "1 - cos th = 1 / 2" by (simp add: th_def cos_60)
  have ch: "cos (th / 2) - cos th = (sqrt 3 - 1) / 2"
    by (simp add: th_def cos_60 cos_30 diff_divide_distrib)
  have "e \<le> (sqrt 3 - 1) / 2" using sqrt3_gt e by (simp add: field_simps)
  then have mh: "max (cos (th / 2) - cos th) e = cos (th / 2) - cos th" by (simp add: ch)
  have m0: "max (1 - cos th) e = 1 - cos th" using e c0 by simp
  have thpos: "0 < th" by (simp add: th_def)
  have a0: "clamped_integrand e th 0 = glm_integrand th 0"
    using thpos by (simp add: clamped_integrand_def glm_integrand_def m0)
  have ah: "clamped_integrand e th (th / 2) = glm_integrand th (th / 2)"
    using thpos by (simp add: clamped_integrand_def glm_integrand_def mh)
  have at: "0 < clamped_integrand e th th" "glm_integrand th th = 0"
    using e by (simp_all add: clamped_integrand_def glm_integrand_def)
  have "simpson_spec (clamped_integrand e th) th 2
      = simpson_spec (glm_integrand th) th 2 + th / 2 / 3 * clamped_integrand e th th"
    by (simp add: simpson_spec_two a0 ah at algebra_simps)
  moreover have "0 < th / 2 / 3 * clamped_integrand e th th"
    using thpos at by simp
  ultimately have ne: "simpson_spec (glm_integrand th) th 2
      \<noteq> simpson_spec (clamped_integrand e th) th 2"
    by linarith
  have "T_num_glm 1 9.80665 2 th
      = Inr (4 * sqrt (1 / 9.80665) * simpson_spec (glm_integrand th) th (nat 2))"
    by (rule T_num_glm_eq) (simp_all add: th_def)
  then show ?thesis
    using ne by (simp add: th_def e_def)
qed

text \<open>
  Claim C1, as the code has it. For \<open>epsilon > 0\<close>, a positive step count, positive
  \<open>L\<close> and \<open>g\<close> and \<open>theta0\<close> in \<open>(0, pi / 2)\<close>, gpt5's \<open>compute_true_period\<close>
  returns \<open>4 * sqrt (L / g)\<close> times the composite Simpson sum of the clamped integrand
  (endpoints weight 1, odd interior nodes 4, even interior nodes 2, scaled by \<open>h / 3\<close>),
  the clamp applied at every node. The glm script returns the same Simpson sum of the
  unclamped integrand, with the value \<open>0\<close> at the upper endpoint.
\<close>

theorem strategy_A_simpson:
  assumes "0 < epsilon" and "0 < integral_steps" and "0 < L" and "0 < g"
    and "0 < theta0" and "theta0 < pi / 2"
  shows "compute_true_period L g integral_steps epsilon theta0
      = Inr (4 * sqrt (L / g)
             * simpson_spec (clamped_integrand epsilon theta0) theta0 (nat integral_steps))
    \<and> T_num_glm L g integral_steps theta0
      = Inr (4 * sqrt (L / g)
             * simpson_spec (glm_integrand theta0) theta0 (nat integral_steps))"
proof -
  have "theta0 \<le> pi" using assms(6) pi_gt_zero by linarith
  then show ?thesis
    using assms by (simp add: compute_true_period_eq T_num_glm_eq)
qed

theorem strategy_A_simpson_witness:
  "(0::real) < 1 / 10 ^ 10 \<and> (0::int) < 2 \<and> (0::real) < 1 \<and> (0::real) < 9.80665
   \<and> 0 < pi / 3 \<and> pi / 3 < pi / 2
   \<and> compute_true_period 1 9.80665 2 (1 / 10 ^ 10) (pi / 3)
      = Inr (4 * sqrt (1 / 9.80665)
             * simpson_spec (clamped_integrand (1 / 10 ^ 10) (pi / 3)) (pi / 3) 2)"
  using strategy_A_simpson [of "1 / 10 ^ 10" 2 1 "9.80665" "pi / 3"] by simp

section \<open>The zero angle\<close>

lemma compute_T_numerical_small:
  assumes "\<bar>theta0_rad\<bar> \<le> 12 / 10 ^ 8" and "0 < L" and "0 < g"
  shows "compute_T_numerical theta0_rad L g n_steps eps = Inr (T_small_spec L g)"
proof -
  define k where "k = sin (theta0_rad / 2)"
  define b where "b = sqrt (1 - k\<^sup>2)"
  have "\<bar>k\<bar> \<le> \<bar>theta0_rad / 2\<bar>" unfolding k_def by (rule abs_sin_x_le_abs_x)
  also have "\<dots> \<le> 6 / 10 ^ 8" using assms(1) by simp
  finally have "\<bar>k\<bar> \<le> 6 / 10 ^ 8" .
  then have "\<bar>k\<bar>\<^sup>2 \<le> (6 / 10 ^ 8)\<^sup>2" by (intro power_mono) auto
  then have k2: "k\<^sup>2 \<le> 36 / 10 ^ 16" by (simp add: power2_eq_square)
  have k0: "0 \<le> k\<^sup>2" by simp
  have arg: "0 \<le> 1 - k\<^sup>2" "1 - k\<^sup>2 \<le> 1" using k2 k0 by simp_all
  have b1: "b \<le> 1" unfolding b_def using arg by simp
  have "(1 - 19 / 10 ^ 16 :: real)\<^sup>2 \<le> 1 - 36 / 10 ^ 16" by (simp add: power2_eq_square)
  also have "\<dots> \<le> 1 - k\<^sup>2" using k2 by simp
  finally have "1 - 19 / 10 ^ 16 \<le> b" unfolding b_def by (rule real_le_rsqrt)
  then have close: "\<bar>(1 + b) / 2 - 1\<bar> < 1 / 10 ^ 15" using b1 by (simp add: abs_less_iff)
  have b0: "0 \<le> b" unfolding b_def using arg by simp
  have "agm_loop (Suc m) 1 b = Inr 1" for m
    using b0 close by (simp add: Let_def)
  from this [of 24] have loop: "agm_loop 25 1 b = Inr 1" by simp
  show ?thesis
    using arg assms(2,3) loop
    by (simp add: compute_T_numerical_def Let_def k_def [symmetric] b_def [symmetric]
        T_small_spec_def)
qed

lemma compute_T_num_zero:
  "0 < L \<Longrightarrow> 0 < g \<Longrightarrow> compute_T_num L g 0 n epsilon = Inr (T_small_spec L g)"
  by (simp add: compute_T_num_def T_small_spec_def)

lemma compute_true_period_zero:
  assumes "0 < epsilon" and "0 < integral_steps" and "0 < L" and "0 < g"
  shows "compute_true_period L g integral_steps epsilon 0 = Inr 0"
  using compute_true_period_eq [OF assms, of 0] by (simp add: simpson_spec_zero)

lemma validated_grid_positive:
  assumes "validate_inputs_gpt5 integral_steps theta_low_deg theta_high_deg sample_count = Inr ()"
    and "th \<in> set (map radians (linspace theta_low_deg theta_high_deg sample_count))"
  shows "0 < th"
proof -
  have v: "0 < theta_low_deg" "theta_low_deg < theta_high_deg" "4 \<le> sample_count"
    using assms(1) by (simp_all add: validate_inputs_gpt5_def split: if_splits)
  have n1: "sample_count \<noteq> 1" using v(3) by simp
  obtain x where x: "x \<in> set (linspace theta_low_deg theta_high_deg sample_count)"
    and th: "th = radians x"
    using assms(2) by auto
  obtain i where i: "i < nat sample_count"
    and xi: "x = linspace theta_low_deg theta_high_deg sample_count ! i"
    using x n1 by (auto simp: in_set_conv_nth linspace_length)
  have "0 \<le> real i * (theta_high_deg - theta_low_deg) / (of_int sample_count - 1)"
    using v by simp
  then have "0 < x" using v(1) n1 i by (simp add: xi linspace_nth)
  then show ?thesis by (simp add: th radians_def)
qed

lemma main_gpt5_grid:
  assumes "main_gpt5 L g theta_low_deg theta_high_deg sample_count integral_steps epsilon
      = Inr ((theta_deg, theta_rad, rest), s)"
  shows "validate_inputs_gpt5 integral_steps theta_low_deg theta_high_deg sample_count = Inr ()
    \<and> theta_rad = map radians (linspace theta_low_deg theta_high_deg sample_count)"
  using assms
  by (auto simp: main_gpt5_def bind_err_def Let_def split: sum.splits)

text \<open>
  Claim C2, as the code has it. At \<open>theta0 = 0\<close>, with positive \<open>L\<close> and \<open>g\<close>, kimi's
  \<open>compute_T_num\<close> (through its guard) and sonnet's \<open>compute_T_numerical\<close> (the loop
  stops in its first round with \<open>a = 1\<close>) return \<open>2 * pi * sqrt (L / g)\<close>; gpt5's
  \<open>compute_true_period\<close> returns \<open>0\<close>, the Simpson sum being scaled by \<open>h = 0\<close>. The
  gpt5 validator keeps the angle \<open>0\<close> out of every run: whenever it accepts a
  configuration every angle of the grid, in radians, is positive, and so is every angle
  in the result of a run that returns.
\<close>

theorem zero_angle:
  assumes "0 < L" and "0 < g" and "0 < epsilon" and "0 < integral_steps"
  shows "compute_T_num L g 0 integral_steps epsilon = Inr (T_small_spec L g)
    \<and> compute_T_numerical 0 L g integral_steps epsilon = Inr (T_small_spec L g)
    \<and> compute_true_period L g integral_steps epsilon 0 = Inr 0
    \<and> (\<forall>theta_low_deg theta_high_deg sample_count.
          validate_inputs_gpt5 integral_steps theta_low_deg theta_high_deg sample_count = Inr ()
          \<longrightarrow> (\<forall>th \<in> set (map radians (linspace theta_low_deg theta_high_deg sample_count)).
                0 < th))
    \<and> (\<forall>theta_low_deg theta_high_deg sample_count theta_deg theta_rad rest s.
          main_gpt5 L g theta_low_deg theta_high_deg sample_count integral_steps epsilon
            = Inr ((theta_deg, theta_rad, rest), s)
          \<longrightarrow> (\<forall>th \<in> set theta_rad. 0 < th))"
proof -
  have a: "compute_T_num L g 0 integral_steps epsilon = Inr (T_small_spec L g)"
    using assms(1,2) by (rule compute_T_num_zero)
  have b: "compute_T_numerical 0 L g integral_steps epsilon = Inr (T_small_spec L g)"
    using assms(1,2) by (intro compute_T_numerical_small) simp_all
  have c: "compute_true_period L g integral_steps epsilon 0 = Inr 0"
    using assms(3,4,1,2) by (rule compute_true_period_zero)
  have d: "\<forall>theta_low_deg theta_high_deg sample_count.
          validate_inputs_gpt5 integral_steps theta_low_deg theta_high_deg sample_count = Inr ()
          \<longrightarrow> (\<forall>th \<in> set (map radians (linspace theta_low_deg theta_high_deg sample_count)).
                0 < th)"
    using validated_grid_positive by blast
  have e: "\<forall>theta_low_deg theta_high_deg sample_count theta_deg theta_rad rest s.
          main_gpt5 L g theta_low_deg theta_high_deg sample_count integral_steps epsilon
            = Inr ((theta_deg, theta_rad, rest), s)
          \<longrightarrow> (\<forall>th \<in> set theta_rad. 0 < th)"
  proof (intro allI impI ballI)
    fix theta_low_deg theta_high_deg sample_count theta_deg theta_rad rest s th
    assume m: "main_gpt5 L g theta_low_deg theta_high_deg sample_count integral_steps epsilon
            = Inr ((theta_deg, theta_rad, rest), s)"
      and th: "th \<in> set theta_rad"
    from main_gpt5_grid [OF m] th show "0 < th"
      using validated_grid_positive by blast
  qed
  from a b c d e show ?thesis by (intro conjI)
qed

theorem zero_angle_witness:
  "(0::real) < 1 \<and> (0::real) < 9.80665 \<and> (0::real) < 1 / 10 ^ 10 \<and> (0::int) < 2000
   \<and> compute_T_num 1 9.80665 0 2000 (1 / 10 ^ 10) = Inr (T_small_spec 1 9.80665)
   \<and> compute_T_numerical 0 1 9.80665 2000 (1 / 10 ^ 10) = Inr (T_small_spec 1 9.80665)
   \<and> compute_true_period 1 9.80665 2000 (1 / 10 ^ 10) 0 = Inr 0
   \<and> validate_inputs_gpt5 2000 5 60 12 = Inr ()
   \<and> radians 5 \<in> set (map radians (linspace 5 60 12))
   \<and> 0 < radians 5"
proof -
  have v: "validate_inputs_gpt5 2000 5 60 12 = Inr ()"
    by (simp add: validate_inputs_gpt5_def)
  have "[0..<12] = [0, 1, 2, 3, 4, 5, 6, 7, 8, 9, 10, 11 :: nat]" by code_simp
  then have m: "radians 5 \<in> set (map radians (linspace 5 60 12))"
    by (simp add: linspace_def)
  show ?thesis
    using zero_angle [of 1 "9.80665" "1 / 10 ^ 10" 2000] v m by auto
qed

text \<open>
  Claim C2 as stated fails for strategy A: gpt5's evaluator returns \<open>0\<close> at the zero
  angle, not the small-angle period.
\<close>

theorem zero_angle_counterexample:
  "compute_true_period 1 9.80665 2000 (1 / 10 ^ 10) 0 = Inr 0
   \<and> compute_true_period 1 9.80665 2000 (1 / 10 ^ 10) 0 \<noteq> Inr (T_small_spec 1 9.80665)"
proof -
  have "compute_true_period 1 9.80665 2000 (1 / 10 ^ 10) 0 = Inr 0"
    by (rule compute_true_period_zero) simp_all
  moreover have "0 < T_small_spec 1 9.80665"
    by (simp add: T_small_spec_def)
  ultimately show ?thesis by simp
qed


section \<open>The period at 60 degrees\<close>

lemma simpson_spec_ge_endpoint:
  assumes "\<And>x. 0 \<le> F x" and "0 \<le> theta0"
  shows "theta0 / real n / 3 * F theta0 \<le> simpson_spec F theta0 n"
proof -
  have o: "0 \<le> sum_list (map (\<lambda>i. F (real i * (theta0 / real n))) (filter odd [1..<n]))"
    by (rule sum_list_nonneg) (auto simp: assms(1))
  have e: "0 \<le> sum_list (map (\<lambda>i. F (real i * (theta0 / real n))) (filter even [1..<n]))"
    by (rule sum_list_nonneg) (auto simp: assms(1))
  have "F theta0 \<le> F 0 + F theta0
      + 4 * sum_list (map (\<lambda>i. F (real i * (theta0 / real n))) (filter odd [1..<n]))
      + 2 * sum_list (map (\<lambda>i. F (real i * (theta0 / real n))) (filter even [1..<n]))"
    using o e assms(1) [of 0] by linarith
  moreover have "0 \<le> theta0 / real n / 3" using assms(2) by simp
  ultimately show ?thesis
    unfolding simpson_spec_def Let_def by (rule mult_left_mono)
qed

text \<open>
  Claim C6 against the gpt5 script. With \<open>L = 1.0\<close>, \<open>g = 9.80665\<close>,
  \<open>integral_steps = 2000\<close> and \<open>epsilon = 1e-10\<close>, \<open>compute_true_period\<close> at
  \<open>theta0 = pi / 3\<close> returns a value above \<open>1.10 * T_small\<close>: the clamped upper endpoint
  alone adds \<open>h / 3 * 1 / sqrt (2 * epsilon)\<close>, more than \<open>12\<close>, to the Simpson sum. The
  claimed upper bound does not hold for this evaluator.
\<close>

theorem sixty_degrees_gpt5:
  "\<exists>t. compute_true_period 1 9.80665 2000 (1 / 10 ^ 10) (pi / 3) = Inr t
       \<and> 1.10 * T_small_spec 1 9.80665 < t"
proof -
  define e :: real where "e = 1 / 10 ^ 10"
  define s :: real where "s = sqrt (1 / 9.80665)"
  define r :: real where "r = sqrt (2 * e)"
  define I where "I = simpson_spec (clamped_integrand e (pi / 3)) (pi / 3) 2000"
  have epos: "0 < e" by (simp add: e_def)
  have spos: "0 < s" by (simp add: s_def)
  have rpos: "0 < r" using epos by (simp add: r_def)
  have "r < 2 / 10 ^ 5"
    unfolding r_def by (rule real_less_lsqrt) (simp_all add: e_def power2_eq_square)
  then have rinv: "50000 < 1 / r" using rpos by (simp add: field_simps)
  have val: "compute_true_period 1 9.80665 2000 e (pi / 3) = Inr (4 * s * I)"
    using compute_true_period_eq [of e 2000 1 "9.80665" "pi / 3"] epos
    by (simp add: s_def I_def)
  have endp: "clamped_integrand e (pi / 3) (pi / 3) = 1 / r"
    using epos by (simp add: clamped_integrand_def r_def)
  have "pi / 3 / real 2000 / 3 * clamped_integrand e (pi / 3) (pi / 3) \<le> I"
    unfolding I_def
    by (rule simpson_spec_ge_endpoint) (simp_all add: clamped_integrand_pos epos less_imp_le)
  then have I: "pi / 18000 * (1 / r) \<le> I" by (simp add: endp)
  have "pi / 18000 * 50000 < pi / 18000 * (1 / r)"
    using rinv by (intro mult_strict_left_mono) simp_all
  then have "pi * (25 / 9) < I" using I by simp
  then have "2.2 * pi < 4 * I" using pi_gt_zero by linarith
  then have "s * (2.2 * pi) < s * (4 * I)"
    using spos by (rule mult_strict_left_mono)
  then have "1.10 * (2 * pi * s) < 4 * s * I"
    by (simp add: mult_ac)
  then have "1.10 * T_small_spec 1 9.80665 < 4 * s * I"
    by (simp add: T_small_spec_def s_def)
  then show ?thesis using val by (auto simp: e_def)
qed


lemma agm_loop_bounds:
  assumes "0 < b" and "b \<le> a"
  shows "\<exists>r. agm_loop m a b = Inr r \<and> b \<le> r \<and> r \<le> a"
  using assms
proof (induction m arbitrary: a b)
  case 0
  then show ?case by simp
next
  case (Suc m)
  have apos: "0 < a" using Suc.prems by linarith
  have ab: "0 \<le> a * b" using Suc.prems apos by simp
  show ?case
  proof (cases "\<bar>(a + b) / 2 - a\<bar> < 1 / 10 ^ 15")
    case True
    then show ?thesis using ab Suc.prems by (simp add: Let_def)
  next
    case False
    have gm: "sqrt (a * b) \<le> (a + b) / 2"
      using apos Suc.prems by (intro arith_geo_mean_sqrt) simp_all
    have "sqrt (b * b) \<le> sqrt (a * b)"
      using Suc.prems by (intro real_sqrt_le_mono mult_right_mono) simp_all
    then have lo: "b \<le> sqrt (a * b)" using Suc.prems by simp
    have pos: "0 < sqrt (a * b)" using apos Suc.prems by simp
    obtain r where r: "agm_loop m ((a + b) / 2) (sqrt (a * b)) = Inr r"
      "sqrt (a * b) \<le> r" "r \<le> (a + b) / 2"
      using Suc.IH [OF pos gm] by blast
    have "agm_loop (Suc m) a b = Inr r"
      using False ab r(1) by (simp add: Let_def)
    moreover have "b \<le> r" using lo r(2) by linarith
    moreover have "r \<le> a" using r(3) Suc.prems by argo
    ultimately show ?thesis by blast
  qed
qed

text \<open>
  The sonnet script's evaluator, on the same configuration, does return a value strictly
  between \<open>T_small\<close> and \<open>1.10 * T_small\<close>.
\<close>

lemma sixty_degrees_sonnet:
  "\<exists>t. compute_T_numerical (pi / 3) 1 9.80665 2000 (1 / 10 ^ 10) = Inr t
       \<and> T_small_spec 1 9.80665 < t \<and> t < 1.10 * T_small_spec 1 9.80665"
proof -
  define b where "b = sqrt (3 / 4 :: real)"
  define s :: real where "s = sqrt (1 / 9.80665)"
  have k: "sin (pi / 3 / 2) = 1 / 2" by (simp add: sin_30)
  have blo: "0.86 < b"
    unfolding b_def by (rule real_less_rsqrt) (simp add: power2_eq_square)
  have bhi: "b < 0.87"
    unfolding b_def by (rule real_less_lsqrt) (simp_all add: power2_eq_square)
  have "0.92 < sqrt 0.86"
    by (rule real_less_rsqrt) (simp add: power2_eq_square)
  also have "sqrt 0.86 < sqrt b" using blo by simp
  finally have b1: "0.92 < sqrt b" .
  have nb: "\<not> \<bar>(1 + b) / 2 - 1\<bar> < 1 / 10 ^ 15" using bhi by simp
  obtain r where r: "agm_loop 24 ((1 + b) / 2) (sqrt b) = Inr r" "sqrt b \<le> r" "r \<le> (1 + b) / 2"
  proof -
    have "0 < sqrt b" using blo by simp
    moreover have "sqrt (1 * b) \<le> (1 + b) / 2"
      using blo by (intro arith_geo_mean_sqrt) simp_all
    ultimately show ?thesis using agm_loop_bounds [of "sqrt b" "(1 + b) / 2" 24] that by auto
  qed
  have "agm_loop (Suc m) 1 b = agm_loop m ((1 + b) / 2) (sqrt b)" for m
    using nb blo by (simp add: Let_def)
  from this [of 24] have loop: "agm_loop 25 1 b = Inr r" by (simp add: r(1))
  have rlo: "0.92 < r" and rhi: "r < 1" using r(2,3) b1 bhi by argo+
  have spos: "0 < s" by (simp add: s_def)
  have val: "compute_T_numerical (pi / 3) 1 9.80665 2000 (1 / 10 ^ 10) = Inr (4 * s * (pi / (2 * r)))"
  proof -
    have arg: "1 - (sin (pi / 3 / 2))\<^sup>2 = 3 / 4"
      by (simp add: sin_30 power2_eq_square)
    have 1: "np_sqrt (1 - (sin (pi / 3 / 2))\<^sup>2) = Inr b"
      unfolding arg b_def by (simp add: np_sqrt_def)
    have 2: "np_div pi (2 * r) = Inr (pi / (2 * r))"
      using rlo by (simp add: np_div_def)
    have 3: "py_div 1 9.80665 = Inr (1 / 9.80665)" "np_sqrt (1 / 9.80665) = Inr s"
      by (simp_all add: py_div_def np_sqrt_def s_def)
    show ?thesis
      unfolding compute_T_numerical_def Let_def 1 bind_err_Inr loop 2 3 ..
  qed
  have ts: "T_small_spec 1 9.80665 = 2 * pi * s" by (simp add: T_small_spec_def s_def)
  have eq: "4 * s * (pi / (2 * r)) = (2 * pi * s) * (1 / r)" using rlo by simp
  have "1 < 1 / r" "1 / r < 1.10" using rlo rhi by (simp_all add: field_simps)
  then have "(2 * pi * s) * 1 < (2 * pi * s) * (1 / r)" "(2 * pi * s) * (1 / r) < (2 * pi * s) * 1.10"
    using spos by (intro mult_strict_left_mono; simp)+
  then show ?thesis unfolding val ts eq by (simp add: mult_ac)
qed


section \<open>Error aggregation: relative errors, maxima and the reported angle\<close>

lemma map_err_pure:
  assumes "\<And>x. x \<in> set xs \<Longrightarrow> k x = Inr (K x)"
  shows "map_err k xs = Inr (map K xs)"
  using assms by (induction xs) simp_all

lemma rel_errors_Inr:
  assumes "\<And>t. t \<in> set tns \<Longrightarrow> 0 < t"
  shows "rel_errors ts tns = Inr (map (\<lambda>(t, tn). \<bar>t - tn\<bar> / tn) (zip ts tns))"
  unfolding rel_errors_def
proof (rule map_err_pure)
  fix x assume "x \<in> set (zip ts tns)"
  then have "snd x \<in> set tns" by (metis in_set_zipE prod.collapse)
  then have "snd x \<noteq> 0" using assms by fastforce
  then show "(case x of (t, tn) \<Rightarrow> py_div \<bar>t - tn\<bar> tn) = Inr (case x of (t, tn) \<Rightarrow> \<bar>t - tn\<bar> / tn)"
    by (cases x) simp
qed

lemma py_max_Max: "xs \<noteq> [] \<Longrightarrow> py_max xs = Inr (Max (set xs))"
proof (cases xs)
  case Nil
  then show "xs \<noteq> [] \<Longrightarrow> ?thesis" by simp
next
  case (Cons x ys)
  have "(\<lambda>m y. if y > m then y else m) = (\<lambda>m y::real. max y m)"
    by (auto simp: fun_eq_iff max_def)
  then have "foldl (\<lambda>m y. if y > m then y else m) x ys = fold max ys x"
    by (simp add: foldl_conv_fold)
  then show ?thesis unfolding Cons py_max.simps Max.set_eq_fold by simp
qed

lemma py_index_first:
  assumes "v \<in> set xs"
  shows "py_index xs v = Inr (length (takeWhile (\<lambda>e. e \<noteq> v) xs))"
  using assms by (induction xs) auto

lemma first_argmax_props:
  assumes "es \<noteq> []"
  shows "first_argmax es < length es"
    and "es ! first_argmax es = Max (set es)"
    and "\<forall>j < first_argmax es. es ! j < Max (set es)"
proof -
  have mem: "Max (set es) \<in> set es" using assms by (intro Max_in) auto
  have "length (takeWhile (\<lambda>e. e \<noteq> Max (set es)) es)
        + length (dropWhile (\<lambda>e. e \<noteq> Max (set es)) es) = length es"
    by (metis length_append takeWhile_dropWhile_id)
  moreover have "dropWhile (\<lambda>e. e \<noteq> Max (set es)) es \<noteq> []"
    using mem by (auto simp: dropWhile_eq_Nil_conv)
  then have "0 < length (dropWhile (\<lambda>e. e \<noteq> Max (set es)) es)"
    by (simp del: dropWhile_eq_Nil_conv)
  ultimately show lt: "first_argmax es < length es"
    unfolding first_argmax_def by linarith
  show "es ! first_argmax es = Max (set es)"
    using lt nth_length_takeWhile [of "\<lambda>e. e \<noteq> Max (set es)" es]
    unfolding first_argmax_def by auto
  show "\<forall>j < first_argmax es. es ! j < Max (set es)"
  proof (intro allI impI)
    fix j assume j: "j < first_argmax es"
    then have "es ! j \<noteq> Max (set es)"
      unfolding first_argmax_def
      using nth_mem [of j "takeWhile (\<lambda>e. e \<noteq> Max (set es)) es"] set_takeWhileD
      by (metis takeWhile_nth)
    moreover have "es ! j \<le> Max (set es)"
      using j lt by (intro Max_ge) auto
    ultimately show "es ! j < Max (set es)" by simp
  qed
qed


lemma rel_errors_nth:
  assumes "length ts = length tns" and "\<And>t. t \<in> set tns \<Longrightarrow> 0 < t"
  shows "rel_errors ts tns = Inr (map (\<lambda>i. \<bar>ts ! i - tns ! i\<bar> / tns ! i) [0..<length tns])"
proof -
  have "map (\<lambda>(t, tn). \<bar>t - tn\<bar> / tn) (zip ts tns)
      = map (\<lambda>i. \<bar>ts ! i - tns ! i\<bar> / tns ! i) [0..<length tns]"
    using assms(1) by (intro nth_equalityI) simp_all
  then show ?thesis using rel_errors_Inr [OF assms(2)] by simp
qed

lemma summary_gpt5_Inr:
  assumes "es \<noteq> []" and "er \<noteq> []" and "length theta_deg = length es"
  shows "summary_gpt5 theta_deg es er
     = Inr \<lparr>max_err_small = Max (set es), max_err_series = Max (set er),
            largest_error_at_deg = angle_of_max theta_deg es\<rparr>"
proof -
  have "Max (set es) \<in> set es" using assms(1) by (intro Max_in) auto
  then have idx: "py_index es (Max (set es)) = Inr (first_argmax es)"
    by (simp add: py_index_first first_argmax_def)
  have "first_argmax es < length theta_deg"
    using first_argmax_props(1) [OF assms(1)] assms(3) by simp
  then have nth: "py_nth theta_deg (first_argmax es) = Inr (angle_of_max theta_deg es)"
    by (simp add: py_nth_def angle_of_max_def)
  show ?thesis
    by (simp add: summary_gpt5_def py_max_Max assms(1,2) idx nth)
qed

lemma summary_gemini_Inr:
  assumes "es \<noteq> []" and "er \<noteq> []"
  shows "summary_gemini hi es er
     = Inr \<lparr>max_err_small = Max (set es), max_err_series = Max (set er),
            largest_error_at_deg = hi\<rparr>"
  by (simp add: summary_gemini_def py_max_Max assms)

text \<open>
  Claim C4, as the code has it. For parallel sequences of equal length with every
  \<open>T_num\<close> entry positive, both error lists are computed index by index as
  \<open>\<bar>T - T_num[i]\<bar> / T_num[i]\<close>, and the summary reports the maximum of each list. The
  gpt5 summary reports one angle, the angle at the first index where \<open>err_small\<close> takes
  its maximum; the gemini summary reports the constant \<open>THETA_HIGH_DEG\<close>. Neither reports
  an angle for the maximum of \<open>err_series\<close>.
\<close>

theorem error_aggregation:
  assumes "length T0 = length T_num" and "length T_series = length T_num"
    and "length theta_deg = length T_num" and "T_num \<noteq> []"
    and "\<forall>t \<in> set T_num. 0 < t"
  shows "rel_errors T0 T_num
      = Inr (map (\<lambda>i. \<bar>T0 ! i - T_num ! i\<bar> / T_num ! i) [0..<length T_num])
    \<and> rel_errors T_series T_num
      = Inr (map (\<lambda>i. \<bar>T_series ! i - T_num ! i\<bar> / T_num ! i) [0..<length T_num])
    \<and> (\<forall>es er. rel_errors T0 T_num = Inr es \<longrightarrow> rel_errors T_series T_num = Inr er \<longrightarrow>
          summary_gpt5 theta_deg es er
            = Inr \<lparr>max_err_small = Max (set es), max_err_series = Max (set er),
                   largest_error_at_deg = angle_of_max theta_deg es\<rparr>
          \<and> summary_gemini THETA_HIGH_DEG es er
            = Inr \<lparr>max_err_small = Max (set es), max_err_series = Max (set er),
                   largest_error_at_deg = THETA_HIGH_DEG\<rparr>
          \<and> first_argmax es < length es
          \<and> es ! first_argmax es = Max (set es)
          \<and> (\<forall>j < first_argmax es. es ! j < Max (set es)))"
proof -
  have pos: "\<And>t. t \<in> set T_num \<Longrightarrow> 0 < t" using assms(5) by blast
  have a: "rel_errors T0 T_num
      = Inr (map (\<lambda>i. \<bar>T0 ! i - T_num ! i\<bar> / T_num ! i) [0..<length T_num])"
    using assms(1) pos by (rule rel_errors_nth)
  have b: "rel_errors T_series T_num
      = Inr (map (\<lambda>i. \<bar>T_series ! i - T_num ! i\<bar> / T_num ! i) [0..<length T_num])"
    using assms(2) pos by (rule rel_errors_nth)
  have c: "summary_gpt5 theta_deg es er
            = Inr \<lparr>max_err_small = Max (set es), max_err_series = Max (set er),
                   largest_error_at_deg = angle_of_max theta_deg es\<rparr>
          \<and> summary_gemini THETA_HIGH_DEG es er
            = Inr \<lparr>max_err_small = Max (set es), max_err_series = Max (set er),
                   largest_error_at_deg = THETA_HIGH_DEG\<rparr>
          \<and> first_argmax es < length es
          \<and> es ! first_argmax es = Max (set es)
          \<and> (\<forall>j < first_argmax es. es ! j < Max (set es))"
    if "rel_errors T0 T_num = Inr es" "rel_errors T_series T_num = Inr er" for es er
  proof -
    have les: "length es = length T_num" and ler: "length er = length T_num"
      using that a b by auto
    then have ne: "es \<noteq> []" "er \<noteq> []" using assms(4) by auto
    have len: "length theta_deg = length es" using les assms(3) by simp
    show ?thesis
      using summary_gpt5_Inr [OF ne len] summary_gemini_Inr [OF ne] first_argmax_props [OF ne(1)]
      by simp
  qed
  show ?thesis using a b c by blast
qed

theorem error_aggregation_witness:
  "length [1, 1 :: real] = length [2, 1 :: real] \<and> length [2, 2 :: real] = length [2, 1 :: real]
   \<and> length [10, 20 :: real] = length [2, 1 :: real] \<and> [2, 1 :: real] \<noteq> []
   \<and> (0::real) < 2 \<and> (0::real) < 1
   \<and> rel_errors [1, 1] [2, 1] = Inr [1 / 2, 0]
   \<and> rel_errors [2, 2] [2, 1] = Inr [0, 1]
   \<and> summary_gpt5 [10, 20] [1 / 2, 0] [0, 1]
        = Inr \<lparr>max_err_small = 1 / 2, max_err_series = 1, largest_error_at_deg = 10\<rparr>"
  using error_aggregation [of "[1, 1]" "[2, 1]" "[2, 2]" "[10, 20]" 20]
  by (simp add: upt_conv_Cons angle_of_max_def first_argmax_def)

text \<open>
  Claim C4 as stated fails: on \<open>T_small = 1\<close>, \<open>T_series = [2, 2]\<close>, \<open>T_exact = [2, 1]\<close> at
  the angles \<open>[10, 20]\<close> the maximum of \<open>err_series\<close> occurs at \<open>20\<close>, and the only angle
  the gpt5 summary reports is \<open>10\<close>; the maximum of \<open>err_small\<close> occurs at \<open>10\<close>, and the
  gemini summary reports \<open>20\<close>.
\<close>

theorem error_aggregation_counterexample:
  "rel_errors [1, 1] [2, 1] = Inr [1 / 2, 0]
   \<and> rel_errors [2, 2] [2, 1] = Inr [0, 1]
   \<and> summary_gpt5 [10, 20] [1 / 2, 0] [0, 1]
        = Inr \<lparr>max_err_small = 1 / 2, max_err_series = 1, largest_error_at_deg = 10\<rparr>
   \<and> angle_of_max [10, 20] [0, 1] = 20
   \<and> summary_gemini 20 [1 / 2, 0] [0, 1]
        = Inr \<lparr>max_err_small = 1 / 2, max_err_series = 1, largest_error_at_deg = 20\<rparr>
   \<and> angle_of_max [10, 20] [1 / 2, 0] = 10"
  by (simp add: rel_errors_def summary_gpt5_def summary_gemini_def py_nth_def
      angle_of_max_def first_argmax_def)


section \<open>Monotonicity of the computed period in the amplitude\<close>





















end
